theory Spec2Isabelle
  imports Main
begin

section \<open>The persisted store\<close>

text \<open>
  The chat backend keeps rooms and messages in a document store and reaches it through
  awaited calls (\<open>Room.findOne\<close>, \<open>room.save\<close>, \<open>Message.findOneAndUpdate\<close>, ...).
  Every service method wraps its body in \<open>try { ... } catch (error) { throw new
  Error(`Failed to ...: ${error.message}`) }\<close>.

  \<^item> A collection is a list of documents in insertion order.
  \<^item> \<open>new Date()\<close> is the parameter \<open>now\<close> (a number of ticks).
  \<^item> A rejected promise of the store (connection lost, schema validation refused) is an
    input: \<open>flt c = Some msg\<close> says that the store call \<open>c\<close> throws \<open>Error(msg)\<close>.
  \<^item> A thrown \<open>Error\<close> is \<open>Inl message\<close>, with the message text of the source.
  \<^item> Record fields carry a prefix (\<open>p_\<close> participant, \<open>r_\<close> room, \<open>m_\<close> message, ...)
    because the source reuses field names (\<open>isActive\<close>, \<open>username\<close>) across documents.
  \<^item> Documents keep the fields the modelled operations read or write; a room's
    \<open>description\<close> and \<open>settings\<close> and the \<open>createdAt\<close>/\<open>updatedAt\<close> stamps are left out.
    The schema's setters (\<open>trim\<close>) are not applied: a string is stored as given, and a
    value the schema's validators refuse is one of the ways a \<open>save\<close> throws.
  \<^item> A handler is modelled as running to completion. The one place where the
    interleaving of two handlers at their \<open>await\<close>s is modelled is \<open>addReaction\<close>, whose
    two store calls are separate steps of a schedule.
\<close>

type_synonym time = nat

datatype store_call =
    Room_findOne | Room_save | Room_findOneAndUpdate
  | Message_save | Message_find | Message_countDocuments
  | Message_findOneAndUpdate | Message_pull | Message_push

type_synonym faults = "store_call \<Rightarrow> string option"

definition no_faults :: faults where
  "no_faults = (\<lambda>c. None)"

definition rethrow :: "string \<Rightarrow> string + 'a \<Rightarrow> string + 'a" where
  \<comment> \<open>\<open>catch (error) { throw new Error(`<prefix>${error.message}`) }\<close>\<close>
  "rethrow pre r = (case r of Inl e \<Rightarrow> Inl (pre @ e) | Inr v \<Rightarrow> Inr v)"

definition truthy :: "string option \<Rightarrow> string option" where
  \<comment> \<open>\<open>if (s)\<close> on a \<open>string | undefined\<close>: \<open>Some v\<close> when the test passes; the empty
      string is falsy too\<close>
  "truthy s = (case s of None \<Rightarrow> None | Some v \<Rightarrow> if v = [] then None else Some v)"

definition or_default :: "int option \<Rightarrow> int \<Rightarrow> int" where
  \<comment> \<open>\<open>n || d\<close> on a \<open>number | undefined\<close>: zero is falsy too\<close>
  "or_default v d = (case v of None \<Rightarrow> d | Some n \<Rightarrow> if n = 0 then d else n)"

fun findIndex :: "('a \<Rightarrow> bool) \<Rightarrow> 'a list \<Rightarrow> nat option" where
  \<comment> \<open>\<open>Array.prototype.findIndex\<close>; \<open>None\<close> is the source's \<open>-1\<close>\<close>
  "findIndex P [] = None"
| "findIndex P (x # xs) = (if P x then Some 0 else map_option Suc (findIndex P xs))"

subsection \<open>Users and rooms (models/user.ts, models/room.ts)\<close>

record AuthUser =
  u_id :: string
  u_username :: string
  u_email :: string

datatype role = Admin | Moderator | Member

datatype roomType = Public | Private | Direct

record participant =
  p_userId :: string
  p_username :: string
  p_email :: string
  p_joinedAt :: time
  p_role :: role
  p_isActive :: bool
  p_lastSeen :: "time option"

record room =
  r_name :: string
  r_roomType :: roomType
  r_participants :: "participant list"
  r_maxParticipants :: "int option"
  r_isActive :: bool
  r_lastActivity :: time
  r_messageCount :: nat
  r_createdBy :: "string \<times> string"

record CreateRoomData =
  c_name :: string
  c_roomType :: "roomType option"
  c_maxParticipants :: "int option"
  c_creator :: AuthUser

definition find_room :: "string \<Rightarrow> room list \<Rightarrow> room option" where
  \<comment> \<open>\<open>Room.findOne({ name })\<close>\<close>
  "find_room n rs = find (\<lambda>r. r_name r = n) rs"

fun save_room :: "room \<Rightarrow> room list \<Rightarrow> room list" where
  \<comment> \<open>\<open>room.save()\<close>: the stored document of that (unique) name is replaced, a new
      document is appended\<close>
  "save_room r [] = [r]"
| "save_room r (x # xs) = (if r_name x = r_name r then r # xs else x # save_room r xs)"

subsection \<open>RoomService (services/roomService.ts)\<close>

definition createRoom ::
  "faults \<Rightarrow> time \<Rightarrow> CreateRoomData \<Rightarrow> room list \<Rightarrow> string + (room \<times> room list)" where
  "createRoom flt now data rs = rethrow ''Failed to create room: ''
     (case flt Room_findOne of Some e \<Rightarrow> Inl e | None \<Rightarrow>
      (case find_room (c_name data) rs of
         Some existingRoom \<Rightarrow> Inl ''Room with this name already exists''
       | None \<Rightarrow>
          (let new_room = \<lparr> r_name = c_name data,
                 r_roomType = (case c_roomType data of None \<Rightarrow> Public | Some t \<Rightarrow> t),
                 r_participants =
                   [\<lparr> p_userId = u_id (c_creator data), p_username = u_username (c_creator data),
                      p_email = u_email (c_creator data), p_joinedAt = now, p_role = Admin,
                      p_isActive = True, p_lastSeen = None \<rparr>],
                 r_maxParticipants = Some (or_default (c_maxParticipants data) 100),
                 r_isActive = True,
                 r_lastActivity = now,
                 r_messageCount = 0,
                 r_createdBy = (u_id (c_creator data), u_username (c_creator data)) \<rparr>
           in (case flt Room_save of Some e \<Rightarrow> Inl e
               | None \<Rightarrow> Inr (new_room, save_room new_room rs)))))"

definition joinRoom ::
  "faults \<Rightarrow> time \<Rightarrow> string \<Rightarrow> AuthUser \<Rightarrow> room list \<Rightarrow> string + (room \<times> room list)" where
  "joinRoom flt now roomName user rs = rethrow ''Failed to join room: ''
     (case flt Room_findOne of Some e \<Rightarrow> Inl e | None \<Rightarrow>
      (case find_room roomName rs of
         None \<Rightarrow>
           createRoom flt now
             \<lparr> c_name = roomName, c_roomType = Some Public, c_maxParticipants = None,
               c_creator = user \<rparr> rs
       | Some room \<Rightarrow>
           if \<not> r_isActive room then Inl ''Room is not active''
           else
             (case
                (case findIndex (\<lambda>p. p_userId p = u_id user) (r_participants room) of
                   Some i \<Rightarrow>
                     Inr ((r_participants room)
                            [i := (r_participants room ! i)
                                    \<lparr> p_isActive := True, p_lastSeen := Some now \<rparr>])
                 | None \<Rightarrow>
                     if or_default (r_maxParticipants room) 100
                          \<le> int (length (filter p_isActive (r_participants room)))
                     then Inl ''Room is full''
                     else Inr (r_participants room @
                            [\<lparr> p_userId = u_id user, p_username = u_username user,
                               p_email = u_email user, p_joinedAt = now, p_role = Member,
                               p_isActive = True, p_lastSeen = Some now \<rparr>]))
              of Inl e \<Rightarrow> Inl e
               | Inr ps \<Rightarrow>
                  (case flt Room_save of Some e \<Rightarrow> Inl e
                   | None \<Rightarrow>
                      (let room' = room \<lparr> r_participants := ps, r_lastActivity := now \<rparr>
                       in Inr (room', save_room room' rs))))))"

definition leaveRoom ::
  "faults \<Rightarrow> time \<Rightarrow> string \<Rightarrow> string \<Rightarrow> room list \<Rightarrow> string + (room option \<times> room list)" where
  "leaveRoom flt now roomName userId rs = rethrow ''Failed to leave room: ''
     (case flt Room_findOne of Some e \<Rightarrow> Inl e | None \<Rightarrow>
      (case find_room roomName rs of
         None \<Rightarrow> Inr (None, rs)
       | Some room \<Rightarrow>
          (let ps = (case findIndex (\<lambda>p. p_userId p = userId) (r_participants room) of
                       Some i \<Rightarrow> (r_participants room)
                                   [i := (r_participants room ! i)
                                           \<lparr> p_isActive := False, p_lastSeen := Some now \<rparr>]
                     | None \<Rightarrow> r_participants room);
               room' = room \<lparr> r_participants := ps, r_lastActivity := now \<rparr>
           in (case flt Room_save of Some e \<Rightarrow> Inl e
               | None \<Rightarrow> Inr (Some room', save_room room' rs)))))"

definition activeCount :: "room \<Rightarrow> nat" where
  \<comment> \<open>\<open>room.participants.filter(p => p.isActive).length\<close>\<close>
  "activeCount r = length (filter p_isActive (r_participants r))"

definition entriesOf :: "string \<Rightarrow> room \<Rightarrow> participant list" where
  \<comment> \<open>the participant entries of a user in a room\<close>
  "entriesOf uid r = filter (\<lambda>p. p_userId p = uid) (r_participants r)"

definition unique_participants :: "room \<Rightarrow> bool" where
  \<comment> \<open>the data model's invariant: participant entries are unique per \<open>userId\<close>\<close>
  "unique_participants r = distinct (map p_userId (r_participants r))"

subsection \<open>Messages (models/message.ts)\<close>

text \<open>
  A message's \<open>_id\<close> is its position in the collection: documents are appended by
  \<open>message.save()\<close> and never removed (deletion is soft). The \<open>sender\<close> sub-document
  \<open>{id, username, email}\<close> has the shape of an \<^typ>\<open>AuthUser\<close>.
\<close>

datatype messageType = Text | Image | File | System

record reaction =
  x_userId :: string
  x_username :: string
  x_emoji :: string
  x_timestamp :: time

record message =
  m_id :: nat
  m_content :: string
  m_sender :: AuthUser
  m_room :: "string option"
  m_messageType :: messageType
  m_timestamp :: time
  m_isEdited :: bool
  m_editedAt :: "time option"
  m_isDeleted :: bool
  m_deletedAt :: "time option"
  m_reactions :: "reaction list"
  m_mentions :: "string list"
  m_replyTo :: "nat option"

record db =
  d_rooms :: "room list"
  d_messages :: "message list"

record CreateMessageData =
  cm_content :: string
  cm_sender :: AuthUser
  cm_room :: "string option"
  cm_messageType :: "messageType option"
  cm_replyTo :: "nat option"
  cm_mentions :: "string list option"

record MessageFilter =
  f_room :: "string option"
  f_senderId :: "string option"
  f_messageType :: "messageType option"
  f_startDate :: "time option"
  f_endDate :: "time option"
  f_limit :: "nat option"
  f_skip :: "nat option"

record MessagePage =
  g_messages :: "message list"
  g_total :: nat
  g_hasMore :: bool

fun update_first :: "('a \<Rightarrow> bool) \<Rightarrow> ('a \<Rightarrow> 'a) \<Rightarrow> 'a list \<Rightarrow> 'a list" where
  \<comment> \<open>\<open>findOneAndUpdate(query, update)\<close>: the first document matching the query is updated\<close>
  "update_first P f [] = []"
| "update_first P f (x # xs) = (if P x then f x # xs else x # update_first P f xs)"

subsection \<open>Connections and outbound events (handler/socketHandler.ts, socket.io)\<close>

text \<open>
  An outbound event is recorded with the socket.io call that sent it:
  \<open>socket.emit\<close> (\<open>ToSocket\<close>), \<open>io.to(room).emit\<close> (\<open>To\<close>), \<open>socket.to(room).emit\<close>
  (\<open>ExceptTo\<close>), \<open>io.emit\<close> (\<open>ToAll\<close>) and \<open>socket.broadcast.emit\<close> (\<open>ToAllExcept\<close>).
  \<open>connectedUsers\<close> is a \<open>Map\<close> from socket id to session, \<open>userRoomMemberships\<close> a
  \<open>Map\<close> from user id to a \<open>Set\<close> of room names; both iterate in insertion order and
  are association lists here, a \<open>Set\<close> being a list without repetition.
\<close>

datatype target =
    ToSocket string
  | To string
  | ExceptTo string string
  | ToAll
  | ToAllExcept string

datatype 'd emit = Emit target string 'd

record session =
  s_id :: string
  s_username :: string
  s_room :: "string option"

type_synonym connectedUsers = "(string \<times> session) list"

type_synonym userRoomMemberships = "(string \<times> string list) list"

type_synonym sockets = "(string \<times> string list) list"

fun recipients :: "sockets \<Rightarrow> target \<Rightarrow> string list" where
  \<comment> \<open>the live connections an emit reaches, given each connection's transport-level
      rooms; every connection is also in the room named by its own id\<close>
  "recipients ss (ToSocket s) = filter (\<lambda>c. c = s) (map fst ss)"
| "recipients ss (To r) = map fst (filter (\<lambda>(c, rooms). c = r \<or> r \<in> set rooms) ss)"
| "recipients ss (ExceptTo r s) =
     map fst (filter (\<lambda>(c, rooms). (c = r \<or> r \<in> set rooms) \<and> c \<noteq> s) ss)"
| "recipients ss ToAll = map fst ss"
| "recipients ss (ToAllExcept s) = filter (\<lambda>c. c \<noteq> s) (map fst ss)"

fun emit_event :: "'d emit \<Rightarrow> string" where
  "emit_event (Emit t ev d) = ev"

fun emit_target :: "'d emit \<Rightarrow> target" where
  "emit_target (Emit t ev d) = t"

definition reached :: "sockets \<Rightarrow> string \<Rightarrow> 'd emit list \<Rightarrow> string list" where
  \<comment> \<open>the connections that receive an event of the given name\<close>
  "reached ss ev es = concat (map (\<lambda>e. recipients ss (emit_target e)) (filter (\<lambda>e. emit_event e = ev) es))"

record socket =
  k_id :: string
  k_user :: "AuthUser option"

subsection \<open>SocketService (services/socketService.ts) and SocketRoomManager\<close>

fun sendToUser :: "connectedUsers \<Rightarrow> string \<Rightarrow> string \<Rightarrow> 'd \<Rightarrow> 'd emit list" where
  \<comment> \<open>\<open>for (const [socketId, user] of users) if (user.id === userId) { emit; break; }\<close>\<close>
  "sendToUser [] userId event data = []"
| "sendToUser ((socketId, user) # users) userId event data =
     (if s_id user = userId then [Emit (To socketId) event data]
      else sendToUser users userId event data)"

definition sendToRoom :: "string \<Rightarrow> string \<Rightarrow> 'd \<Rightarrow> 'd emit list" where
  "sendToRoom room event data = [Emit (To room) event data]"

definition broadcast :: "string \<Rightarrow> 'd \<Rightarrow> 'd emit list" where
  "broadcast event data = [Emit ToAll event data]"

fun addUserToRoom :: "string \<Rightarrow> string \<Rightarrow> userRoomMemberships \<Rightarrow> userRoomMemberships" where
  "addUserToRoom userId room [] = [(userId, [room])]"
| "addUserToRoom userId room ((u, rooms) # ms) =
     (if u = userId then (u, if room \<in> set rooms then rooms else rooms @ [room]) # ms
      else (u, rooms) # addUserToRoom userId room ms)"

fun removeUserFromRoom :: "string \<Rightarrow> string \<Rightarrow> userRoomMemberships \<Rightarrow> userRoomMemberships" where
  "removeUserFromRoom userId room [] = []"
| "removeUserFromRoom userId room ((u, rooms) # ms) =
     (if u = userId
      then (if filter (\<lambda>r. r \<noteq> room) rooms = [] then ms
            else (u, filter (\<lambda>r. r \<noteq> room) rooms) # ms)
      else (u, rooms) # removeUserFromRoom userId room ms)"

definition getUserRooms :: "userRoomMemberships \<Rightarrow> string \<Rightarrow> string list" where
  "getUserRooms ms userId = (case map_of ms userId of None \<Rightarrow> [] | Some rooms \<Rightarrow> rooms)"

definition getUsersInRoom :: "connectedUsers \<Rightarrow> string \<Rightarrow> session list" where
  \<comment> \<open>\<open>Array.from(connectedUsers.values()).filter(user => user.room === room)\<close>\<close>
  "getUsersInRoom users room = filter (\<lambda>user. s_room user = Some room) (map snd users)"

record RoomStats =
  userCount :: nat
  users :: "(string \<times> string) list"

definition getRoomStats :: "connectedUsers \<Rightarrow> string \<Rightarrow> RoomStats" where
  "getRoomStats cu room =
     (let roomUsers = getUsersInRoom cu room
      in \<lparr> userCount = length roomUsers,
           users = map (\<lambda>user. (s_id user, s_username user)) roomUsers \<rparr>)"

fun roomStats_add :: "string \<Rightarrow> string \<Rightarrow> (string \<times> string list) list \<Rightarrow> (string \<times> string list) list" where
  \<comment> \<open>\<open>if (!roomStats.has(room)) roomStats.set(room, new Set()); roomStats.get(room).add(userId)\<close>\<close>
  "roomStats_add room userId [] = [(room, [userId])]"
| "roomStats_add room userId ((r, ids) # rest) =
     (if r = room then (r, if userId \<in> set ids then ids else ids @ [userId]) # rest
      else (r, ids) # roomStats_add room userId rest)"

definition roomStats_of :: "userRoomMemberships \<Rightarrow> (string \<times> string list) list" where
  \<comment> \<open>the two nested \<open>forEach\<close> loops of \<open>getAllActiveRooms\<close>\<close>
  "roomStats_of ms =
     foldl (\<lambda>stats (userId, rooms). foldl (\<lambda>st room. roomStats_add room userId st) stats rooms) [] ms"

fun usernameOf :: "connectedUsers \<Rightarrow> string \<Rightarrow> string" where
  "usernameOf [] userId = ''Unknown''"
| "usernameOf ((socketId, user) # rest) userId =
     (if s_id user = userId then s_username user else usernameOf rest userId)"

record ActiveRoom =
  a_room :: string
  a_userCount :: nat
  a_users :: "string list"

definition getAllActiveRooms :: "connectedUsers \<Rightarrow> userRoomMemberships \<Rightarrow> ActiveRoom list" where
  "getAllActiveRooms allUsers ms =
     map (\<lambda>(room, userIds).
            \<lparr> a_room = room, a_userCount = length userIds,
              a_users = map (usernameOf allUsers) userIds \<rparr>)
         (roomStats_of ms)"

definition subscribers :: "userRoomMemberships \<Rightarrow> string \<Rightarrow> string set" where
  \<comment> \<open>the users whose subscription set in the membership index contains the room\<close>
  "subscribers ms room = set (map fst (filter (\<lambda>(u, rooms). room \<in> set rooms) ms))"

definition subscriptions :: "userRoomMemberships \<Rightarrow> (string \<times> string) set" where
  \<comment> \<open>the membership index as a relation between rooms and users\<close>
  "subscriptions ms = {(r, u). \<exists>rooms. (u, rooms) \<in> set ms \<and> r \<in> set rooms}"

definition stats_ok :: "(string \<times> string list) list \<Rightarrow> bool" where
  \<comment> \<open>\<open>roomStats\<close> is a \<open>Map\<close> of non-empty \<open>Set\<close>s: no key twice, no user twice\<close>
  "stats_ok st = (distinct (map fst st) \<and> list_all (\<lambda>(r, ids). distinct ids \<and> ids \<noteq> []) st)"

definition stats_pairs :: "(string \<times> string list) list \<Rightarrow> (string \<times> string) set" where
  \<comment> \<open>\<open>roomStats\<close> as a relation between rooms and users\<close>
  "stats_pairs st = {(r, u). \<exists>ids. (r, ids) \<in> set st \<and> u \<in> set ids}"

subsection \<open>MessageService (services/messageService.ts)\<close>

record messageData =
  md_id :: nat
  md_username :: string
  md_message :: string
  md_timestamp :: time
  md_room :: "string option"
  md_replyTo :: "nat option"
  md_mentions :: "string list option"
  md_isEdited :: bool
  md_sender :: AuthUser

datatype payload =
    ErrorP string
  | NewMessageP message
  | ReceiveMessageP messageData
  | MessageDeletedP nat
  | MessageReactionP nat string string string
  | MessageEditedP nat string "time option"
  | MentionP nat string string string

definition createMessage ::
  "faults \<Rightarrow> time \<Rightarrow> CreateMessageData \<Rightarrow> db \<Rightarrow> (string + message) \<times> db \<times> payload emit list" where
  \<comment> \<open>the store after the call is returned on failure too: a failure of the room update
      comes after \<open>message.save()\<close> has stored the message\<close>
  "createMessage flt now data db =
     (case flt Message_save of
        Some e \<Rightarrow> (Inl (''Failed to create message: '' @ e), db, [])
      | None \<Rightarrow>
         (let savedMessage =
                \<lparr> m_id = length (d_messages db), m_content = cm_content data,
                  m_sender = cm_sender data, m_room = cm_room data,
                  m_messageType = (case cm_messageType data of None \<Rightarrow> Text | Some t \<Rightarrow> t),
                  m_timestamp = now, m_isEdited = False, m_editedAt = None,
                  m_isDeleted = False, m_deletedAt = None, m_reactions = [],
                  m_mentions = (case cm_mentions data of None \<Rightarrow> [] | Some ms \<Rightarrow> ms),
                  m_replyTo = cm_replyTo data \<rparr>;
              db1 = db \<lparr> d_messages := d_messages db @ [savedMessage] \<rparr>
          in (case truthy (cm_room data) of
                None \<Rightarrow> (Inr savedMessage, db1, [])
              | Some room \<Rightarrow>
                 (case flt Room_findOneAndUpdate of
                    Some e \<Rightarrow> (Inl (''Failed to create message: '' @ e), db1, [])
                  | None \<Rightarrow>
                     (Inr savedMessage,
                      db1 \<lparr> d_rooms :=
                              update_first (\<lambda>r. r_name r = room)
                                (\<lambda>r. r \<lparr> r_messageCount := Suc (r_messageCount r),
                                         r_lastActivity := now \<rparr>)
                                (d_rooms db1) \<rparr>,
                      sendToRoom room ''newMessage'' (NewMessageP savedMessage))))))"

definition matches :: "MessageFilter \<Rightarrow> message \<Rightarrow> bool" where
  \<comment> \<open>the \<open>query\<close> object built by \<open>getMessages\<close>\<close>
  "matches f m =
     (\<not> m_isDeleted m \<and>
      (case truthy (f_room f) of None \<Rightarrow> True | Some r \<Rightarrow> m_room m = Some r) \<and>
      (case truthy (f_senderId f) of None \<Rightarrow> True | Some s \<Rightarrow> u_id (m_sender m) = s) \<and>
      (case f_messageType f of None \<Rightarrow> True | Some t \<Rightarrow> m_messageType m = t) \<and>
      (case f_startDate f of None \<Rightarrow> True | Some d \<Rightarrow> d \<le> m_timestamp m) \<and>
      (case f_endDate f of None \<Rightarrow> True | Some d \<Rightarrow> m_timestamp m \<le> d))"

definition getMessages :: "faults \<Rightarrow> MessageFilter \<Rightarrow> db \<Rightarrow> string + MessagePage" where
  \<comment> \<open>\<open>find(query).sort({timestamp: -1}).limit(limit).skip(skip)\<close>: the store skips
      before it limits; messages of equal timestamp keep their stored order here (the
      store promises no order among them); \<open>messages.reverse()\<close> gives chronological
      order. \<open>limit\<close> and \<open>skip\<close> are natural numbers\<close>
  "getMessages flt f db = rethrow ''Failed to get messages: ''
     (case flt Message_find of Some e \<Rightarrow> Inl e | None \<Rightarrow>
      (case flt Message_countDocuments of Some e \<Rightarrow> Inl e | None \<Rightarrow>
       (let limit = (case f_limit f of None \<Rightarrow> 50 | Some n \<Rightarrow> if n = 0 then 50 else n);
            skip = (case f_skip f of None \<Rightarrow> 0 | Some n \<Rightarrow> n);
            found = filter (matches f) (d_messages db);
            page = take limit (drop skip (sort_key (\<lambda>m. - int (m_timestamp m)) found))
        in Inr \<lparr> g_messages = rev page, g_total = length found,
                 g_hasMore = (skip + limit < length found) \<rparr>)))"

definition getRoomMessages ::
  "faults \<Rightarrow> string \<Rightarrow> nat \<Rightarrow> nat \<Rightarrow> db \<Rightarrow> string + (room option \<times> MessagePage)" where
  "getRoomMessages flt roomName limit skip db = rethrow ''Failed to get room messages: ''
     (case flt Room_findOne of Some e \<Rightarrow> Inl e | None \<Rightarrow>
      (case getMessages flt
              \<lparr> f_room = Some roomName, f_senderId = None, f_messageType = None,
                f_startDate = None, f_endDate = None, f_limit = Some limit, f_skip = Some skip \<rparr>
              db of
         Inl e \<Rightarrow> Inl e
       | Inr page \<Rightarrow>
           Inr (find (\<lambda>r. r_name r = roomName \<and> r_isActive r) (d_rooms db), page)))"

definition editMessage ::
  "faults \<Rightarrow> time \<Rightarrow> nat \<Rightarrow> string \<Rightarrow> string \<Rightarrow> db \<Rightarrow> string + (message option \<times> db)" where
  "editMessage flt now messageId newContent userId db = rethrow ''Failed to edit message: ''
     (case flt Message_findOneAndUpdate of Some e \<Rightarrow> Inl e | None \<Rightarrow>
      (let query = (\<lambda>m. m_id m = messageId \<and> u_id (m_sender m) = userId \<and> \<not> m_isDeleted m);
           update = (\<lambda>m. m \<lparr> m_content := newContent, m_isEdited := True,
                              m_editedAt := Some now \<rparr>)
       in Inr (map_option update (find query (d_messages db)),
               db \<lparr> d_messages := update_first query update (d_messages db) \<rparr>)))"

definition deleteMessage ::
  "faults \<Rightarrow> time \<Rightarrow> nat \<Rightarrow> string \<Rightarrow> db \<Rightarrow> string + (bool \<times> db)" where
  "deleteMessage flt now messageId userId db = rethrow ''Failed to delete message: ''
     (case flt Message_findOneAndUpdate of Some e \<Rightarrow> Inl e | None \<Rightarrow>
      (let query = (\<lambda>m. m_id m = messageId \<and> u_id (m_sender m) = userId \<and> \<not> m_isDeleted m);
           update = (\<lambda>m. m \<lparr> m_isDeleted := True, m_deletedAt := Some now,
                              m_content := ''[Message deleted]'' \<rparr>)
       in Inr (find query (d_messages db) \<noteq> None,
               db \<lparr> d_messages := update_first query update (d_messages db) \<rparr>)))"

definition addReaction ::
  "faults \<Rightarrow> time \<Rightarrow> nat \<Rightarrow> string \<Rightarrow> string \<Rightarrow> string \<Rightarrow> db \<Rightarrow> (string + message option) \<times> db" where
  \<comment> \<open>two store calls: \<open>$pull\<close> of the user's reactions, then \<open>$push\<close> of the new one;
      when the second throws, the first has already been applied\<close>
  "addReaction flt now messageId userId username emoji db =
     (case flt Message_pull of
        Some e \<Rightarrow> (Inl (''Failed to add reaction: '' @ e), db)
      | None \<Rightarrow>
         (let byId = (\<lambda>m. m_id m = messageId);
              db1 = db \<lparr> d_messages :=
                      update_first byId
                        (\<lambda>m. m \<lparr> m_reactions :=
                                   filter (\<lambda>x. x_userId x \<noteq> userId) (m_reactions m) \<rparr>)
                        (d_messages db) \<rparr>
          in (case flt Message_push of
                Some e \<Rightarrow> (Inl (''Failed to add reaction: '' @ e), db1)
              | None \<Rightarrow>
                 (let db2 = db1 \<lparr> d_messages :=
                          update_first byId
                            (\<lambda>m. m \<lparr> m_reactions := m_reactions m @
                                       [\<lparr> x_userId = userId, x_username = username,
                                          x_emoji = emoji, x_timestamp = now \<rparr>] \<rparr>)
                            (d_messages db1) \<rparr>
                  in (Inr (find byId (d_messages db2)), db2)))))"

definition updateUserLastSeen :: "faults \<Rightarrow> time \<Rightarrow> string \<Rightarrow> string \<Rightarrow> room list \<Rightarrow> room list" where
  \<comment> \<open>best effort: the \<open>catch\<close> logs and swallows a store failure\<close>
  "updateUserLastSeen flt now roomName userId rs =
     (case flt Room_findOneAndUpdate of
        Some e \<Rightarrow> rs
      | None \<Rightarrow>
          update_first
            (\<lambda>r. r_name r = roomName \<and> list_ex (\<lambda>p. p_userId p = userId) (r_participants r) \<and>
                  r_isActive r)
            (\<lambda>r. r \<lparr> r_participants :=
                       (case findIndex (\<lambda>p. p_userId p = userId) (r_participants r) of
                          None \<Rightarrow> r_participants r
                        | Some i \<Rightarrow> (r_participants r)
                            [i := (r_participants r ! i) \<lparr> p_lastSeen := Some now \<rparr>]),
                     r_lastActivity := now \<rparr>)
            rs)"

subsection \<open>Histories of message operations\<close>

text \<open>
  The operations of \<open>MessageService\<close> that write the message collection, and a run of
  them in sequence; a call that throws leaves the store as the store calls it completed
  left it.

  \<open>addReaction\<close> awaits two store calls, and the \<open>add_reaction\<close> handlers of several
  connections are not serialised: between the \<open>$pull\<close> and the \<open>$push\<close> of one call the
  store may run steps of other calls. A history of reactions on a message is therefore
  a list of store steps, in the order the store ran them.
\<close>

datatype reaction_step =
    Pull string
  | Push string string string time


fun apply_step :: "reaction_step \<Rightarrow> reaction list \<Rightarrow> reaction list" where
  \<comment> \<open>\<open>{ $pull: { reactions: { userId } } }\<close> and
      \<open>{ $push: { reactions: { userId, username, emoji, timestamp } } }\<close>\<close>
  "apply_step (Pull userId) rs = filter (\<lambda>x. x_userId x \<noteq> userId) rs"
| "apply_step (Push userId username emoji now) rs =
     rs @ [\<lparr> x_userId = userId, x_username = username, x_emoji = emoji, x_timestamp = now \<rparr>]"

definition store_step :: "nat \<Rightarrow> reaction_step \<Rightarrow> db \<Rightarrow> db" where
  \<comment> \<open>one \<open>Message.findByIdAndUpdate(messageId, ...)\<close> that the store completes\<close>
  "store_step messageId s db =
     db \<lparr> d_messages :=
            update_first (\<lambda>m. m_id m = messageId)
              (\<lambda>m. m \<lparr> m_reactions := apply_step s (m_reactions m) \<rparr>)
              (d_messages db) \<rparr>"

definition run_steps :: "nat \<Rightarrow> reaction_step list \<Rightarrow> db \<Rightarrow> db" where
  \<comment> \<open>the store steps on one message, in the order the store ran them\<close>
  "run_steps messageId steps db = foldl (\<lambda>d s. store_step messageId s d) db steps"

definition call_steps :: "faults \<Rightarrow> time \<Rightarrow> string \<Rightarrow> string \<Rightarrow> string \<Rightarrow> reaction_step list" where
  \<comment> \<open>the store steps one \<open>addReaction\<close> call completes: none when the \<open>$pull\<close> throws,
      the \<open>$pull\<close> alone when the \<open>$push\<close> throws\<close>
  "call_steps flt now userId username emoji =
     (case flt Message_pull of
        Some e \<Rightarrow> []
      | None \<Rightarrow>
         (case flt Message_push of
            Some e \<Rightarrow> [Pull userId]
          | None \<Rightarrow> [Pull userId, Push userId username emoji now]))"

fun paired :: "string list \<Rightarrow> reaction_step list \<Rightarrow> bool" where
  \<comment> \<open>every \<open>$push\<close> of a user comes after a \<open>$pull\<close> of that user with no other
      \<open>$push\<close> of that user in between; the first argument lists the users whose latest
      step is a \<open>$pull\<close>\<close>
  "paired pulled [] = True"
| "paired pulled (Pull userId # steps) = paired (userId # pulled) steps"
| "paired pulled (Push userId username emoji now # steps) =
     (userId \<in> set pulled \<and> paired (removeAll userId pulled) steps)"



datatype message_op =
    Create faults time CreateMessageData
  | Edit faults time nat string string
  | Delete faults time nat string
  | React faults time nat string string string

fun apply_op :: "message_op \<Rightarrow> db \<Rightarrow> db" where
  "apply_op (Create flt now data) db = fst (snd (createMessage flt now data db))"
| "apply_op (Edit flt now messageId newContent userId) db =
     (case editMessage flt now messageId newContent userId db of
        Inl e \<Rightarrow> db | Inr (message, db') \<Rightarrow> db')"
| "apply_op (Delete flt now messageId userId) db =
     (case deleteMessage flt now messageId userId db of
        Inl e \<Rightarrow> db | Inr (success, db') \<Rightarrow> db')"
| "apply_op (React flt now messageId userId username emoji) db =
     snd (addReaction flt now messageId userId username emoji db)"

definition apply_ops :: "message_op list \<Rightarrow> db \<Rightarrow> db" where
  "apply_ops ops db = foldl (\<lambda>d op. apply_op op d) db ops"

definition ids_ok :: "db \<Rightarrow> bool" where
  \<comment> \<open>every stored message has the \<open>_id\<close> the store gave it: its position\<close>
  "ids_ok db = (map m_id (d_messages db) = [0..<length (d_messages db)])"

definition tombstone :: "nat \<Rightarrow> db \<Rightarrow> bool" where
  \<comment> \<open>the message of that id is stored, soft-deleted, with the placeholder as content\<close>
  "tombstone mid db = (ids_ok db \<and> mid < length (d_messages db) \<and>
     m_isDeleted (d_messages db ! mid) \<and> m_content (d_messages db ! mid) = ''[Message deleted]'')"

subsection \<open>Socket event handlers (handler/socketHandler.ts, setupSocketHandlers)\<close>

text \<open>
  A handler runs on the connection \<open>sock\<close> and returns the store and the events it
  emitted, in order. Event names are the values of \<open>SOCKET_EVENTS\<close>.
\<close>

record send_data =
  sd_message :: string
  sd_room :: "string option"
  sd_replyTo :: "nat option"
  sd_mentions :: "string list option"

definition on_send_message ::
  "faults \<Rightarrow> time \<Rightarrow> socket \<Rightarrow> send_data \<Rightarrow> db \<Rightarrow> db \<times> payload emit list" where
  "on_send_message flt now sock data db =
     (case k_user sock of
        None \<Rightarrow> (db, [])
      | Some user \<Rightarrow>
         (case createMessage flt now
                 \<lparr> cm_content = sd_message data, cm_sender = user, cm_room = sd_room data,
                   cm_messageType = None, cm_replyTo = sd_replyTo data,
                   cm_mentions = sd_mentions data \<rparr> db of
            (Inl e, db', es) \<Rightarrow> (db', es @ [Emit (ToSocket (k_id sock)) ''error'' (ErrorP e)])
          | (Inr savedMessage, db', es) \<Rightarrow>
             (let messageData =
                    \<lparr> md_id = m_id savedMessage, md_username = u_username user,
                      md_message = sd_message data, md_timestamp = m_timestamp savedMessage,
                      md_room = sd_room data, md_replyTo = sd_replyTo data,
                      md_mentions = sd_mentions data, md_isEdited = False, md_sender = user \<rparr>
              in (case truthy (sd_room data) of
                    Some room \<Rightarrow>
                      (db' \<lparr> d_rooms := updateUserLastSeen flt now room (u_id user) (d_rooms db') \<rparr>,
                       es @ sendToRoom room ''receive_message'' (ReceiveMessageP messageData))
                  | None \<Rightarrow>
                      (db', es @ broadcast ''receive_message'' (ReceiveMessageP messageData))))))"

definition on_add_reaction ::
  "faults \<Rightarrow> time \<Rightarrow> socket \<Rightarrow> nat \<Rightarrow> string \<Rightarrow> db \<Rightarrow> db \<times> payload emit list" where
  "on_add_reaction flt now sock messageId emoji db =
     (case k_user sock of
        None \<Rightarrow> (db, [])
      | Some user \<Rightarrow>
         (case addReaction flt now messageId (u_id user) (u_username user) emoji db of
            (Inl e, db') \<Rightarrow> (db', [Emit (ToSocket (k_id sock)) ''error'' (ErrorP e)])
          | (Inr None, db') \<Rightarrow> (db', [])
          | (Inr (Some message), db') \<Rightarrow>
             (let eventData = MessageReactionP messageId emoji (u_username user) (u_id user)
              in (case truthy (m_room message) of
                    Some targetRoom \<Rightarrow> (db', [Emit (To targetRoom) ''message_reaction'' eventData])
                  | None \<Rightarrow> (db', [Emit ToAll ''message_reaction'' eventData])))))"

definition on_edit_message ::
  "faults \<Rightarrow> time \<Rightarrow> socket \<Rightarrow> nat \<Rightarrow> string \<Rightarrow> db \<Rightarrow> db \<times> payload emit list" where
  "on_edit_message flt now sock messageId newContent db =
     (case k_user sock of
        None \<Rightarrow> (db, [])
      | Some user \<Rightarrow>
         (case editMessage flt now messageId newContent (u_id user) db of
            Inl e \<Rightarrow> (db, [Emit (ToSocket (k_id sock)) ''error'' (ErrorP e)])
          | Inr (None, db') \<Rightarrow> (db', [])
          | Inr (Some message, db') \<Rightarrow>
             (let eventData = MessageEditedP messageId newContent (m_editedAt message)
              in (case truthy (m_room message) of
                    Some room \<Rightarrow> (db', [Emit (To room) ''message_edited'' eventData])
                  | None \<Rightarrow> (db', [Emit ToAll ''message_edited'' eventData])))))"

definition on_delete_message ::
  "faults \<Rightarrow> time \<Rightarrow> socket \<Rightarrow> nat \<Rightarrow> db \<Rightarrow> db \<times> payload emit list" where
  \<comment> \<open>on success the source calls \<open>socket.emit('message_deleted', ...)\<close>, under the comment
      "We need to get the message to know which room to emit to"\<close>
  "on_delete_message flt now sock messageId db =
     (case k_user sock of
        None \<Rightarrow> (db, [])
      | Some user \<Rightarrow>
         (case deleteMessage flt now messageId (u_id user) db of
            Inl e \<Rightarrow> (db, [Emit (ToSocket (k_id sock)) ''error'' (ErrorP e)])
          | Inr (success, db') \<Rightarrow>
             (db', if success
                   then [Emit (ToSocket (k_id sock)) ''message_deleted'' (MessageDeletedP messageId)]
                   else [])))"

subsection \<open>HTTP route POST /api/messages (routes/messages.ts)\<close>

definition is_word_char :: "char \<Rightarrow> bool" where
  \<comment> \<open>the class \<open>\w\<close> of the mention pattern \<open>/@(\w+)/g\<close>\<close>
  "is_word_char c =
     (c \<in> set ''abcdefghijklmnopqrstuvwxyzABCDEFGHIJKLMNOPQRSTUVWXYZ0123456789_'')"

fun scan_mentions :: "string option \<Rightarrow> string \<Rightarrow> string list" where
  \<comment> \<open>a left-to-right scan; \<open>Some w\<close> is the word read so far after an \<open>@\<close>\<close>
  "scan_mentions cur [] = (case cur of None \<Rightarrow> [] | Some w \<Rightarrow> if w = [] then [] else [w])"
| "scan_mentions cur (c # cs) =
     (case cur of
        None \<Rightarrow> if c = CHR ''@'' then scan_mentions (Some []) cs else scan_mentions None cs
      | Some w \<Rightarrow>
          if is_word_char c then scan_mentions (Some (w @ [c])) cs
          else (if w = [] then [] else [w]) @
               (if c = CHR ''@'' then scan_mentions (Some []) cs else scan_mentions None cs))"

definition extractMentions :: "string \<Rightarrow> string list" where
  \<comment> \<open>the \<open>while ((match = mentionRegex.exec(content)) !== null)\<close> loop\<close>
  "extractMentions content = scan_mentions None content"

record post_body =
  b_roomName :: "string option"
  b_content :: "string option"
  b_messageType :: "messageType option"
  b_replyTo :: "nat option"
  b_mentions :: "string list option"

definition post_message ::
  "faults \<Rightarrow> time \<Rightarrow> connectedUsers \<Rightarrow> AuthUser option \<Rightarrow> post_body \<Rightarrow> db
     \<Rightarrow> nat \<times> db \<times> payload emit list" where
  \<comment> \<open>the HTTP status code, the store and the events emitted\<close>
  "post_message flt now cu req_user body db =
     (case (truthy (b_roomName body), truthy (b_content body)) of
        (Some roomName, Some content) \<Rightarrow>
          (case req_user of
             None \<Rightarrow> (401, db, [])
           | Some user \<Rightarrow>
              (let finalMentions =
                     (case b_mentions body of
                        Some ms \<Rightarrow> Some ms
                      | None \<Rightarrow> if CHR ''@'' \<in> set content then Some (extractMentions content)
                                else None)
               in (case createMessage flt now
                          \<lparr> cm_content = content, cm_sender = user, cm_room = Some roomName,
                            cm_messageType =
                              Some (case b_messageType body of None \<Rightarrow> Text | Some t \<Rightarrow> t),
                            cm_replyTo = b_replyTo body, cm_mentions = finalMentions \<rparr> db of
                     (Inl e, db', es) \<Rightarrow> (500, db', es)
                   | (Inr message, db', es) \<Rightarrow>
                       (201, db',
                        es @ concat (map (\<lambda>mention. sendToUser cu mention ''mention''
                                            (MentionP (m_id message) roomName content (u_username user)))
                                      (case finalMentions of None \<Rightarrow> [] | Some ms \<Rightarrow> ms))))))
      | _ \<Rightarrow> (400, db, []))"

section \<open>Sample data\<close>

definition alice :: AuthUser where
  "alice = \<lparr> u_id = ''u1'', u_username = ''alice'', u_email = ''alice@example.org'' \<rparr>"

definition bob :: AuthUser where
  "bob = \<lparr> u_id = ''u2'', u_username = ''bob'', u_email = ''bob@example.org'' \<rparr>"

definition seat :: "AuthUser \<Rightarrow> role \<Rightarrow> bool \<Rightarrow> participant" where
  "seat u r a = \<lparr> p_userId = u_id u, p_username = u_username u, p_email = u_email u,
      p_joinedAt = 1, p_role = r, p_isActive = a, p_lastSeen = None \<rparr>"

definition vip :: "participant list \<Rightarrow> room" where
  \<comment> \<open>a room for one\<close>
  "vip ps = \<lparr> r_name = ''vip'', r_roomType = Public, r_participants = ps,
      r_maxParticipants = Some 1, r_isActive = True, r_lastActivity = 1, r_messageCount = 0,
      r_createdBy = (''u1'', ''alice'') \<rparr>"

definition lobby :: room where
  "lobby = \<lparr> r_name = ''lobby'', r_roomType = Public, r_participants = [seat alice Admin True],
      r_maxParticipants = Some 100, r_isActive = True, r_lastActivity = 1, r_messageCount = 0,
      r_createdBy = (''u1'', ''alice'') \<rparr>"

definition after ::
  "string + ('a \<times> room list) \<Rightarrow> (room list \<Rightarrow> string + ('b \<times> room list))
     \<Rightarrow> string + ('b \<times> room list)" where
  \<comment> \<open>the next call of a history, on the store the previous call left\<close>
  "after r f = (case r of Inl e \<Rightarrow> Inl e | Inr (v, rs) \<Rightarrow> f rs)"

definition seats ::
  "string + (room \<times> room list) \<Rightarrow> string + ((string \<times> bool) list \<times> int option)" where
  \<comment> \<open>of the room a call returned: who sits there, who is active, and the capacity\<close>
  "seats r = (case r of Inl e \<Rightarrow> Inl e
     | Inr (room, rs) \<Rightarrow>
         Inr (map (\<lambda>p. (p_username p, p_isActive p)) (r_participants room),
              r_maxParticipants room))"

definition lobby_with_bob :: room where
  \<comment> \<open>the lobby after Bob joined it at time 2\<close>
  "lobby_with_bob = lobby \<lparr> r_participants := r_participants lobby @
       [\<lparr> p_userId = ''u2'', p_username = ''bob'', p_email = ''bob@example.org'',
          p_joinedAt = 2, p_role = Member, p_isActive = True, p_lastSeen = Some 2 \<rparr>],
     r_lastActivity := 2 \<rparr>"

definition tab :: "AuthUser \<Rightarrow> string option \<Rightarrow> session" where
  \<comment> \<open>the session of a connection of the user, with its current room\<close>
  "tab u r = \<lparr> s_id = u_id u, s_username = u_username u, s_room = r \<rparr>"

definition two_tabs :: connectedUsers where
  \<comment> \<open>Alice connected twice, Bob once\<close>
  "two_tabs = [(''s1'', tab alice (Some ''lobby'')), (''s2'', tab alice (Some ''lobby'')),
               (''s3'', tab bob (Some ''lobby''))]"

definition one_tab :: connectedUsers where
  "one_tab = [(''s1'', tab alice (Some ''lobby''))]"

definition alice_rooms :: userRoomMemberships where
  \<comment> \<open>the membership index after Alice's \<open>join_room\<close> of general, then of lobby\<close>
  "alice_rooms = addUserToRoom ''u1'' ''lobby'' (addUserToRoom ''u1'' ''general'' [])"

definition chat :: db where
  \<comment> \<open>Alice and Bob in the lobby, no message yet\<close>
  "chat = \<lparr> d_rooms = [lobby_with_bob], d_messages = [] \<rparr>"

definition conn :: "string \<Rightarrow> AuthUser \<Rightarrow> socket" where
  "conn c u = \<lparr> k_id = c, k_user = Some u \<rparr>"

definition in_lobby :: sockets where
  \<comment> \<open>the connections of \<open>two_tabs\<close>, all joined to the lobby\<close>
  "in_lobby = [(''s1'', [''lobby'']), (''s2'', [''lobby'']), (''s3'', [''lobby''])]"

definition say :: "string \<Rightarrow> send_data" where
  \<comment> \<open>a \<open>send_message\<close> payload for the lobby, without a mentions list\<close>
  "say text = \<lparr> sd_message = text, sd_room = Some ''lobby'', sd_replyTo = None,
      sd_mentions = None \<rparr>"

definition post :: "string \<Rightarrow> post_body" where
  \<comment> \<open>the same message as the body of POST /api/messages\<close>
  "post text = \<lparr> b_roomName = Some ''lobby'', b_content = Some text, b_messageType = None,
      b_replyTo = None, b_mentions = None \<rparr>"

definition greeted :: db where
  \<comment> \<open>the chat after Alice said hello in the lobby at time 5\<close>
  "greeted = fst (on_send_message no_faults 5 (conn ''s1'' alice) (say ''hello'') chat)"

definition events :: "db \<times> payload emit list \<Rightarrow> (target \<times> string) list" where
  \<comment> \<open>where a handler sent which event\<close>
  "events r = map (\<lambda>e. (emit_target e, emit_event e)) (snd r)"

definition stored :: "db \<Rightarrow> (string \<times> bool \<times> string list) list" where
  \<comment> \<open>content, deletion flag and mentions of the stored messages\<close>
  "stored db = map (\<lambda>m. (m_content m, m_isDeleted m, m_mentions m)) (d_messages db)"

definition save_fails :: faults where
  \<comment> \<open>the store refuses \<open>message.save()\<close>\<close>
  "save_fails = (\<lambda>c. if c = Message_save then Some ''disk full'' else None)"



definition buried :: db where
  \<comment> \<open>the chat after Alice deleted her hello at time 9\<close>
  "buried = fst (on_delete_message no_faults 9 (conn ''s1'' alice) 0 greeted)"

definition later :: "message_op list" where
  \<comment> \<open>what happens after the deletion: an edit of the deleted message by its author, a
      reaction to it, and a new message\<close>
  "later = [Edit no_faults 10 0 ''hello again'' ''u1'',
            React no_faults 11 0 ''u2'' ''bob'' ''smile'',
            Create no_faults 12
              \<lparr> cm_content = ''bye'', cm_sender = bob, cm_room = Some ''lobby'',
                cm_messageType = None, cm_replyTo = None, cm_mentions = None \<rparr>]"

definition everything :: MessageFilter where
  "everything = \<lparr> f_room = None, f_senderId = None, f_messageType = None, f_startDate = None,
     f_endDate = None, f_limit = None, f_skip = None \<rparr>"

section \<open>Rooms: joining and leaving\<close>

lemmas sample_data = alice_def bob_def seat_def vip_def lobby_def no_faults_def

lemmas room_ops = joinRoom_def leaveRoom_def createRoom_def rethrow_def or_default_def
  find_room_def activeCount_def entriesOf_def after_def seats_def Let_def

lemma findIndex_None_iff: "findIndex P xs = None \<longleftrightarrow> (\<forall>x\<in>set xs. \<not> P x)"
  by (induction xs) auto

lemma findIndex_Some:
  "findIndex P xs = Some i \<Longrightarrow> i < length xs \<and> P (xs ! i) \<and> (\<forall>x\<in>set (take i xs). \<not> P x)"
proof (induction xs arbitrary: i)
  case Nil
  then show ?case by simp
next
  case (Cons x xs)
  show ?case
  proof (cases "P x")
    case True
    with Cons.prems show ?thesis by simp
  next
    case False
    with Cons.prems obtain j where j: "findIndex P xs = Some j" "i = Suc j" by auto
    from Cons.IH [OF j(1)] False j(2) show ?thesis by simp
  qed
qed

lemma find_room_name: "find_room n rs = Some r \<Longrightarrow> r_name r = n"
  by (auto simp: find_room_def find_Some_iff)

lemma find_room_save_same: "find_room (r_name r) (save_room r rs) = Some r"
  by (induction rs) (auto simp: find_room_def)

lemma find_room_save_other: "n \<noteq> r_name r \<Longrightarrow> find_room n (save_room r rs) = find_room n rs"
  by (induction rs) (auto simp: find_room_def)

lemma filter_update_first:
  assumes "findIndex P xs = Some i" and "length (filter P xs) \<le> 1" and "P y"
  shows "filter P (xs[i := y]) = [y]"
proof -
  from findIndex_Some [OF assms(1)] have i: "i < length xs" "P (xs ! i)"
    and before: "\<forall>x\<in>set (take i xs). \<not> P x" by auto
  have split: "xs = take i xs @ xs ! i # drop (Suc i) xs"
    using i(1) by (simp add: id_take_nth_drop)
  have "filter P xs = filter P (take i xs) @ xs ! i # filter P (drop (Suc i) xs)"
    using i(2) by (subst split) simp
  with before assms(2) have after: "filter P (drop (Suc i) xs) = []"
    by (simp add: filter_empty_conv)
  have "xs[i := y] = take i xs @ y # drop (Suc i) xs"
    using i(1) by (simp add: upd_conv_take_nth_drop)
  with before after assms(3) show ?thesis by (simp add: filter_empty_conv)
qed

text \<open>
  Participant entries are unique per user in every room \<open>joinRoom\<close> returns, when they
  were in the room it found: \<open>createRoom\<close> writes one entry, and \<open>joinRoom\<close> appends
  only for a user it did not find. A user then has at most one entry.
\<close>

lemma unique_entries:
  assumes "unique_participants r"
  shows "length (entriesOf uid r) \<le> 1"
proof -
  have "length (filter (\<lambda>p. p_userId p = uid) ps) \<le> 1" if "distinct (map p_userId ps)"
    for ps :: "participant list"
    using that
  proof (induction ps)
    case Nil
    show ?case by simp
  next
    case (Cons a ps)
    show ?case
    proof (cases "p_userId a = uid")
      case True
      with Cons.prems have "uid \<notin> p_userId ` set ps" by simp
      then have "\<forall>p\<in>set ps. p_userId p \<noteq> uid" by blast
      then have "filter (\<lambda>p. p_userId p = uid) ps = []" by (simp add: filter_empty_conv)
      with True show ?thesis by simp
    next
      case False
      with Cons show ?thesis by simp
    qed
  qed
  with assms show ?thesis by (simp add: unique_participants_def entriesOf_def)
qed

lemma joinRoom_unique:
  assumes ok: "joinRoom flt t R U rs = Inr (r1, rs1)"
      and uniq: "\<forall>room. find_room R rs = Some room \<longrightarrow> unique_participants room"
  shows "unique_participants r1"
proof (cases "find_room R rs")
  case None
  with ok show ?thesis
    by (auto simp: joinRoom_def createRoom_def rethrow_def Let_def unique_participants_def
             split: option.splits sum.splits)
next
  case (Some room)
  let ?P = "\<lambda>p. p_userId p = u_id U"
  let ?ps = "r_participants room"
  from uniq Some have d: "distinct (map p_userId ?ps)" by (simp add: unique_participants_def)
  show ?thesis
  proof (cases "findIndex ?P ?ps")
    case None
    then have "u_id U \<notin> set (map p_userId ?ps)" by (auto simp: findIndex_None_iff)
    with ok Some None d show ?thesis
      by (auto simp: joinRoom_def rethrow_def Let_def unique_participants_def
               split: option.splits sum.splits if_splits)
  next
    case (Some i)
    from findIndex_Some [OF Some] have i: "i < length ?ps" by simp
    have "map p_userId (?ps[i := (?ps ! i) \<lparr> p_isActive := True, p_lastSeen := Some t \<rparr>])
          = (map p_userId ?ps)[i := p_userId (?ps ! i)]"
      by (simp add: map_update)
    also have "\<dots> = map p_userId ?ps" using i by (simp add: list_update_same_conv)
    finally have "distinct (map p_userId
        (?ps[i := (?ps ! i) \<lparr> p_isActive := True, p_lastSeen := Some t \<rparr>]))"
      using d by simp
    with ok \<open>find_room R rs = Some room\<close> Some show ?thesis
      by (auto simp: joinRoom_def rethrow_def Let_def unique_participants_def
               split: option.splits sum.splits if_splits)
  qed
qed

text \<open>
  What an accepted \<open>joinRoom\<close> leaves behind: the room is stored under its name, it is
  active, and the user has one entry, which is active.
\<close>

lemma joinRoom_accepted:
  assumes ok: "joinRoom flt t R U rs = Inr (r1, rs1)"
      and uniq: "\<forall>room. find_room R rs = Some room \<longrightarrow> length (entriesOf (u_id U) room) \<le> 1"
  shows "find_room R rs1 = Some r1 \<and> r_isActive r1 \<and>
         (\<exists>p. entriesOf (u_id U) r1 = [p] \<and> p_isActive p)"
proof (cases "find_room R rs")
  case None
  with ok have r1: "r_name r1 = R" "r_isActive r1"
      "r_participants r1 = [\<lparr> p_userId = u_id U, p_username = u_username U,
          p_email = u_email U, p_joinedAt = t, p_role = Admin, p_isActive = True,
          p_lastSeen = None \<rparr>]"
      and rs1: "rs1 = save_room r1 rs"
    by (auto simp: joinRoom_def createRoom_def rethrow_def Let_def
             split: option.splits sum.splits)
  from r1(1) rs1 have "find_room R rs1 = Some r1"
    using find_room_save_same [of r1 rs] by simp
  with r1 show ?thesis by (simp add: entriesOf_def)
next
  case (Some room)
  let ?P = "\<lambda>p. p_userId p = u_id U"
  from Some have nm: "r_name room = R" by (rule find_room_name)
  from uniq Some have u1: "length (filter ?P (r_participants room)) \<le> 1"
    by (simp add: entriesOf_def)
  show ?thesis
  proof (cases "findIndex ?P (r_participants room)")
    case None
    with ok Some have act: "r_isActive room"
      and r1: "r1 = room \<lparr> r_participants := r_participants room @
            [\<lparr> p_userId = u_id U, p_username = u_username U, p_email = u_email U,
               p_joinedAt = t, p_role = Member, p_isActive = True, p_lastSeen = Some t \<rparr>],
            r_lastActivity := t \<rparr>"
      and rs1: "rs1 = save_room r1 rs"
      by (auto simp: joinRoom_def rethrow_def Let_def split: option.splits sum.splits if_splits)
    from None have "filter ?P (r_participants room) = []"
      by (simp add: findIndex_None_iff filter_empty_conv)
    with r1 act have "r_isActive r1" "\<exists>p. entriesOf (u_id U) r1 = [p] \<and> p_isActive p"
      by (simp_all add: entriesOf_def)
    moreover from r1 nm rs1 have "find_room R rs1 = Some r1"
      using find_room_save_same [of r1 rs] by simp
    ultimately show ?thesis by simp
  next
    case (Some i)
    let ?y = "(r_participants room ! i) \<lparr> p_isActive := True, p_lastSeen := Some t \<rparr>"
    from ok \<open>find_room R rs = Some room\<close> Some have act: "r_isActive room"
      and r1: "r1 = room \<lparr> r_participants := (r_participants room)[i := ?y],
            r_lastActivity := t \<rparr>"
      and rs1: "rs1 = save_room r1 rs"
      by (auto simp: joinRoom_def rethrow_def Let_def split: option.splits sum.splits if_splits)
    from findIndex_Some [OF Some] have "?P ?y" by simp
    from filter_update_first [OF Some u1 this] r1 act
    have "r_isActive r1" "\<exists>p. entriesOf (u_id U) r1 = [p] \<and> p_isActive p"
      by (simp_all add: entriesOf_def)
    moreover from r1 nm rs1 have "find_room R rs1 = Some r1"
      using find_room_save_same [of r1 rs] by simp
    ultimately show ?thesis by simp
  qed
qed

lemma joinRoom_member_again:
  assumes "find_room R rs = Some r" "r_isActive r" "entriesOf (u_id U) r \<noteq> []"
      and "flt Room_findOne = None" "flt Room_save = None"
  shows "\<exists>r' rs'. joinRoom flt t R U rs = Inr (r', rs')"
proof -
  from assms(3) have "findIndex (\<lambda>p. p_userId p = u_id U) (r_participants r) \<noteq> None"
    by (simp add: findIndex_None_iff entriesOf_def filter_empty_conv)
  then obtain i where "findIndex (\<lambda>p. p_userId p = u_id U) (r_participants r) = Some i"
    by auto
  with assms show ?thesis
    by (simp add: joinRoom_def rethrow_def Let_def)
qed

text \<open>
  The capacity check guards the branch that appends a new participant: a user who is not
  a participant is turned away from a room whose active count has reached its capacity,
  and the store is not written.
\<close>

lemma joinRoom_full:
  assumes "find_room R rs = Some r" "r_isActive r" "entriesOf (u_id U) r = []"
      and "flt Room_findOne = None"
      and "or_default (r_maxParticipants r) 100 \<le> int (activeCount r)"
  shows "joinRoom flt t R U rs = Inl ''Failed to join room: Room is full''"
proof -
  from assms(3) have "findIndex (\<lambda>p. p_userId p = u_id U) (r_participants r) = None"
    by (simp add: findIndex_None_iff entriesOf_def filter_empty_conv)
  with assms show ?thesis
    by (simp add: joinRoom_def rethrow_def activeCount_def)
qed

text \<open>
  C1. The number of active participants of a room never exceeds its \<open>maxParticipants\<close>
  after a \<open>joinRoom\<close>. The code checks the capacity only when it appends a new
  participant; a participant who left and joins again is set active without the check.
  In a room for one, Alice creates the room and leaves, Bob joins, Alice joins again:
  every call is accepted and the room ends with two active participants.
\<close>

theorem joinRoom_rejoin_exceeds_capacity:
  "seats (after (after (after
      (createRoom no_faults 1
         \<lparr> c_name = ''vip'', c_roomType = None, c_maxParticipants = Some 1,
           c_creator = alice \<rparr> [])
      (leaveRoom no_faults 2 ''vip'' (u_id alice)))
      (joinRoom no_faults 3 ''vip'' bob))
      (joinRoom no_faults 4 ''vip'' alice))
   = Inr ([(''alice'', True), (''bob'', True)], Some 1) \<and>
   activeCount (vip [seat alice Admin False, seat bob Member True]) = 1 \<and>
   seats (joinRoom no_faults 4 ''vip'' alice [vip [seat alice Admin False, seat bob Member True]])
   = Inr ([(''alice'', True), (''bob'', True)], Some 1)"
  by (simp add: sample_data room_ops)

text \<open>
  C5 (as stated). Calling \<open>joinRoom(R, U)\<close> twice in succession leaves exactly one
  participant entry for \<open>U\<close> in \<open>R\<close>, for every room and user. In a full room both calls
  are turned away and the user has no entry.
\<close>

theorem joinRoom_twice_full_room_counterexample:
  "joinRoom no_faults 5 ''vip'' bob [vip [seat alice Admin True]]
     = Inl ''Failed to join room: Room is full'' \<and>
   joinRoom no_faults 6 ''vip'' bob [vip [seat alice Admin True]]
     = Inl ''Failed to join room: Room is full'' \<and>
   entriesOf (u_id bob) (vip [seat alice Admin True]) = []"
  by (simp add: sample_data room_ops)

text \<open>
  C5 (amended). When \<open>joinRoom(R, U)\<close> is accepted, a second call in succession is
  accepted too (the store answering), and the room then stored under \<open>R\<close> holds exactly
  one participant entry for \<open>U\<close>, which has \<open>isActive = true\<close>.
\<close>

theorem joinRoom_twice_one_entry:
  assumes first: "joinRoom flt1 t1 R U rs = Inr (r1, rs1)"
      and nf: "flt2 Room_findOne = None" "flt2 Room_save = None"
      and uniq: "\<forall>room. find_room R rs = Some room \<longrightarrow> length (entriesOf (u_id U) room) \<le> 1"
  shows "\<exists>r2 rs2 p. joinRoom flt2 t2 R U rs1 = Inr (r2, rs2) \<and> find_room R rs2 = Some r2 \<and>
           entriesOf (u_id U) r2 = [p] \<and> p_isActive p"
proof -
  from joinRoom_accepted [OF first uniq] obtain p1 where
    a: "find_room R rs1 = Some r1" "r_isActive r1" "entriesOf (u_id U) r1 = [p1]" by blast
  from joinRoom_member_again [OF a(1) a(2) _ nf, of U t2] a(3)
  obtain r2 rs2 where second: "joinRoom flt2 t2 R U rs1 = Inr (r2, rs2)" by auto
  have "\<forall>room. find_room R rs1 = Some room \<longrightarrow> length (entriesOf (u_id U) room) \<le> 1"
    using a by simp
  from joinRoom_accepted [OF second this] second show ?thesis by blast
qed

theorem joinRoom_twice_one_entry_witness:
  "joinRoom no_faults 2 ''lobby'' bob [lobby] = Inr (lobby_with_bob, [lobby_with_bob]) \<and>
   (\<exists>r2 rs2 p. joinRoom no_faults 3 ''lobby'' bob [lobby_with_bob] = Inr (r2, rs2) \<and>
      find_room ''lobby'' rs2 = Some r2 \<and> entriesOf (u_id bob) r2 = [p] \<and> p_isActive p)"
proof -
  have first: "joinRoom no_faults 2 ''lobby'' bob [lobby] = Inr (lobby_with_bob, [lobby_with_bob])"
    by (simp add: sample_data room_ops lobby_with_bob_def)
  have uniq: "\<forall>room. find_room ''lobby'' [lobby] = Some room
                \<longrightarrow> length (entriesOf (u_id bob) room) \<le> 1"
    by (simp add: sample_data room_ops)
  have nf: "no_faults Room_findOne = None" "no_faults Room_save = None"
    by (simp_all add: no_faults_def)
  from joinRoom_twice_one_entry [OF first nf uniq, of 3] first show ?thesis by simp
qed

text \<open>
  C6 (as stated). When the user is not a participant of the room, \<open>leaveRoom\<close> is a
  no-op that returns "not found" and leaves the room's persisted state unchanged. Bob is
  not in the lobby; his \<open>leaveRoom\<close> returns the room, and the stored room has a new
  \<open>lastActivity\<close>.
\<close>

theorem leaveRoom_stranger_counterexample:
  "entriesOf (u_id bob) lobby = [] \<and>
   leaveRoom no_faults 9 ''lobby'' (u_id bob) [lobby]
     = Inr (Some (lobby \<lparr> r_lastActivity := 9 \<rparr>), [lobby \<lparr> r_lastActivity := 9 \<rparr>]) \<and>
   lobby \<lparr> r_lastActivity := 9 \<rparr> \<noteq> lobby"
  by (simp add: sample_data room_ops)

text \<open>
  C6 (amended). With the store answering, \<open>leaveRoom(roomName, userId)\<close> raises no error.
  When the room is absent it returns \<open>null\<close> and the store is unchanged. When the room
  exists, it returns the room as saved, with \<open>lastActivity\<close> stamped and every other
  field but the participants kept: if the user is a participant, the first entry of that
  user has \<open>isActive\<close> set to false and \<open>lastSeen\<close> stamped and the other entries are
  kept; if the user is not a participant, the participants are unchanged.
\<close>

theorem leaveRoom_outcomes:
  assumes nf: "flt Room_findOne = None" "flt Room_save = None"
  shows "case find_room roomName rs of
           None \<Rightarrow> leaveRoom flt now roomName userId rs = Inr (None, rs)
         | Some room \<Rightarrow>
             (\<exists>room'. leaveRoom flt now roomName userId rs = Inr (Some room', save_room room' rs) \<and>
                find_room roomName (save_room room' rs) = Some room' \<and>
                room' = room \<lparr> r_participants := r_participants room', r_lastActivity := now \<rparr> \<and>
                (if \<forall>p\<in>set (r_participants room). p_userId p \<noteq> userId
                 then r_participants room' = r_participants room
                 else \<exists>i<length (r_participants room).
                        p_userId (r_participants room ! i) = userId \<and>
                        (\<forall>p\<in>set (take i (r_participants room)). p_userId p \<noteq> userId) \<and>
                        r_participants room' = (r_participants room)
                          [i := (r_participants room ! i)
                                  \<lparr> p_isActive := False, p_lastSeen := Some now \<rparr>]))"
proof (cases "find_room roomName rs")
  case None
  with nf show ?thesis by (simp add: leaveRoom_def rethrow_def)
next
  case (Some room)
  let ?P = "\<lambda>p. p_userId p = userId"
  let ?ps = "r_participants room"
  from Some have nm: "r_name room = roomName" by (rule find_room_name)
  show ?thesis
  proof (cases "findIndex ?P ?ps")
    case None
    let ?r = "room \<lparr> r_lastActivity := now \<rparr>"
    from None have no: "\<forall>p\<in>set ?ps. p_userId p \<noteq> userId" by (simp add: findIndex_None_iff)
    from nf Some None have "leaveRoom flt now roomName userId rs = Inr (Some ?r, save_room ?r rs)"
      by (simp add: leaveRoom_def rethrow_def Let_def)
    moreover have "find_room roomName (save_room ?r rs) = Some ?r"
      using find_room_save_same [of ?r rs] nm by simp
    ultimately show ?thesis using Some no by simp
  next
    case (Some i)
    let ?r = "room \<lparr> r_participants :=
                      ?ps[i := (?ps ! i) \<lparr> p_isActive := False, p_lastSeen := Some now \<rparr>],
                    r_lastActivity := now \<rparr>"
    from findIndex_Some [OF Some] have i: "i < length ?ps" "?P (?ps ! i)"
      "\<forall>p\<in>set (take i ?ps). p_userId p \<noteq> userId" by auto
    then have ex: "\<not> (\<forall>p\<in>set ?ps. p_userId p \<noteq> userId)" by (metis nth_mem)
    from nf \<open>find_room roomName rs = Some room\<close> Some
    have "leaveRoom flt now roomName userId rs = Inr (Some ?r, save_room ?r rs)"
      by (simp add: leaveRoom_def rethrow_def Let_def)
    moreover have "find_room roomName (save_room ?r rs) = Some ?r"
      using find_room_save_same [of ?r rs] nm by simp
    ultimately show ?thesis using \<open>find_room roomName rs = Some room\<close> ex i by auto
  qed
qed

theorem leaveRoom_outcomes_witness:
  "(\<exists>room'. leaveRoom no_faults 9 ''lobby'' (u_id alice) [lobby]
               = Inr (Some room', save_room room' [lobby]) \<and>
      map p_isActive (r_participants room') = [False] \<and>
      map p_lastSeen (r_participants room') = [Some 9]) \<and>
   leaveRoom no_faults 9 ''garden'' (u_id alice) [lobby] = Inr (None, [lobby])"
  using leaveRoom_outcomes [where flt = no_faults and roomName = "''lobby''" and rs = "[lobby]"
      and now = 9 and userId = "u_id alice"]
    leaveRoom_outcomes [where flt = no_faults and roomName = "''garden''" and rs = "[lobby]"
      and now = 9 and userId = "u_id alice"]
  by (simp add: sample_data room_ops)

section \<open>Presence and fan-out\<close>

lemmas socket_ops = getRoomStats_def getUsersInRoom_def getAllActiveRooms_def roomStats_of_def
  subscribers_def reached_def sendToRoom_def broadcast_def tab_def two_tabs_def one_tab_def
  alice_rooms_def

subsection \<open>The grouping of getAllActiveRooms\<close>

lemma stats_pairs_Nil [simp]: "stats_pairs [] = {}"
  by (simp add: stats_pairs_def)

lemma stats_pairs_Cons:
  "stats_pairs ((r, ids) # st) = (\<lambda>u. (r, u)) ` set ids \<union> stats_pairs st"
  by (auto simp: stats_pairs_def)

lemma roomStats_add_keys:
  "map fst (roomStats_add room u st)
     = (if room \<in> set (map fst st) then map fst st else map fst st @ [room])"
  by (induction room u st rule: roomStats_add.induct) auto

lemma roomStats_add_ok: "stats_ok st \<Longrightarrow> stats_ok (roomStats_add room u st)"
proof (induction room u st rule: roomStats_add.induct)
  case (1 room userId)
  then show ?case by (simp add: stats_ok_def)
next
  case (2 room userId r ids rest)
  from "2.prems" have tl: "stats_ok rest" by (simp add: stats_ok_def)
  show ?case
  proof (cases "r = room")
    case True
    with "2.prems" show ?thesis by (simp add: stats_ok_def)
  next
    case False
    from "2.IH" [OF False tl] "2.prems" False show ?thesis
      by (simp add: stats_ok_def roomStats_add_keys)
  qed
qed

lemma roomStats_add_pairs:
  "stats_pairs (roomStats_add room u st) = insert (room, u) (stats_pairs st)"
proof (induction room u st rule: roomStats_add.induct)
  case (1 room userId)
  then show ?case by (simp add: stats_pairs_Cons)
next
  case (2 room userId r ids rest)
  show ?case
  proof (cases "r = room")
    case True
    then show ?thesis by (auto simp: stats_pairs_Cons)
  next
    case False
    with "2.IH" show ?thesis by (simp add: stats_pairs_Cons)
  qed
qed

lemma inner_fold_ok:
  "stats_ok st \<Longrightarrow> stats_ok (foldl (\<lambda>st room. roomStats_add room u st) st rooms)"
  by (induction rooms arbitrary: st) (simp_all add: roomStats_add_ok)

lemma inner_fold_pairs:
  "stats_pairs (foldl (\<lambda>st room. roomStats_add room u st) st rooms)
     = (\<lambda>r. (r, u)) ` set rooms \<union> stats_pairs st"
  by (induction rooms arbitrary: st) (simp_all add: roomStats_add_pairs)

lemma outer_fold_ok:
  "stats_ok st \<Longrightarrow>
   stats_ok (foldl (\<lambda>stats (userId, rooms).
               foldl (\<lambda>st room. roomStats_add room userId st) stats rooms) st ms)"
  by (induction ms arbitrary: st) (simp_all add: inner_fold_ok split_def)

lemma subscriptions_Nil [simp]: "subscriptions [] = {}"
  by (simp add: subscriptions_def)

lemma subscriptions_Cons:
  "subscriptions (a # ms) = (\<lambda>r. (r, fst a)) ` set (snd a) \<union> subscriptions ms"
  by (cases a) (auto simp: subscriptions_def)

lemma outer_fold_pairs:
  "stats_pairs (foldl (\<lambda>stats (userId, rooms).
                  foldl (\<lambda>st room. roomStats_add room userId st) stats rooms) st ms)
     = subscriptions ms \<union> stats_pairs st"
  by (induction ms arbitrary: st)
     (simp_all add: inner_fold_pairs split_def subscriptions_Cons Un_assoc Un_left_commute Un_commute)

lemma roomStats_of_ok: "stats_ok (roomStats_of ms)"
  using outer_fold_ok [of "[]" ms] by (simp add: roomStats_of_def stats_ok_def)

lemma roomStats_of_pairs: "stats_pairs (roomStats_of ms) = subscriptions ms"
  using outer_fold_pairs [of "[]" ms] by (simp add: roomStats_of_def)

lemma stats_entry:
  assumes "stats_ok st" "(r, ids) \<in> set st"
  shows "distinct ids \<and> ids \<noteq> [] \<and> set ids = {u. (r, u) \<in> stats_pairs st}"
proof -
  from assms have "list_all (\<lambda>(r, ids). distinct ids \<and> ids \<noteq> []) st"
    by (simp add: stats_ok_def)
  with assms(2) have d: "distinct ids" "ids \<noteq> []"
    unfolding list_all_iff by fastforce+
  from assms(1) have keys: "distinct (map fst st)" by (simp add: stats_ok_def)
  have same: "ids' = ids" if "(r, ids') \<in> set st" for ids'
    using eq_key_imp_eq_value [OF keys that assms(2)] .
  have "set ids = {u. (r, u) \<in> stats_pairs st}"
  proof (rule set_eqI)
    fix u
    show "u \<in> set ids \<longleftrightarrow> u \<in> {u. (r, u) \<in> stats_pairs st}"
    proof
      assume "u \<in> set ids"
      with assms(2) show "u \<in> {u. (r, u) \<in> stats_pairs st}"
        unfolding stats_pairs_def by blast
    next
      assume "u \<in> {u. (r, u) \<in> stats_pairs st}"
      then obtain ids' where "(r, ids') \<in> set st" "u \<in> set ids'"
        unfolding stats_pairs_def by blast
      with same show "u \<in> set ids" by blast
    qed
  qed
  with d show ?thesis by simp
qed

lemma subscribers_pairs: "subscribers ms r = {u. (r, u) \<in> subscriptions ms}"
proof (induction ms)
  case Nil
  show ?case by (simp add: subscribers_def)
next
  case (Cons a ms)
  obtain u rooms where a: "a = (u, rooms)" by (cases a)
  from Cons show ?case
    unfolding a subscribers_def subscriptions_Cons by auto
qed

subsection \<open>sendToUser\<close>

text \<open>
  C3 (as stated). \<open>sendToUser\<close> pushes the event to every live connection whose session
  belongs to the user. Alice holds the connections \<open>s1\<close> and \<open>s2\<close>; the loop stops at
  the first match, and \<open>s2\<close> receives nothing.
\<close>

theorem sendToUser_second_connection_counterexample:
  "map fst (filter (\<lambda>(c, u). s_id u = ''u1'') two_tabs) = [''s1'', ''s2''] \<and>
   sendToUser two_tabs ''u1'' ''mention'' (MentionP 0 ''lobby'' ''hi @alice'' ''bob'')
     = [Emit (To ''s1'') ''mention'' (MentionP 0 ''lobby'' ''hi @alice'' ''bob'')] \<and>
   reached [(''s1'', [''lobby'']), (''s2'', [''lobby'']), (''s3'', [''lobby''])] ''mention''
     (sendToUser two_tabs ''u1'' ''mention'' (MentionP 0 ''lobby'' ''hi @alice'' ''bob''))
     = [''s1'']"
  by (simp add: sample_data socket_ops)

text \<open>
  C3 (amended). \<open>sendToUser(userId, event, payload)\<close> pushes the event to one connection:
  the first one, in the order of the session registry, whose session belongs to
  \<open>userId\<close>. When the user has no live connection the call emits nothing and raises no
  error.
\<close>

theorem sendToUser_first_connection:
  "sendToUser cu userId ev d =
     (case filter (\<lambda>(c, u). s_id u = userId) cu of
        [] \<Rightarrow> []
      | (c, u) # rest \<Rightarrow> [Emit (To c) ev d])"
  by (induction cu userId ev d rule: sendToUser.induct) simp_all

theorem sendToUser_first_connection_witness:
  "sendToUser two_tabs ''u2'' ''mention'' (ErrorP []) = [Emit (To ''s3'') ''mention'' (ErrorP [])] \<and>
   sendToUser two_tabs ''u9'' ''mention'' (ErrorP []) = []"
  using sendToUser_first_connection [of two_tabs "''u2''" "''mention''" "ErrorP []"]
    sendToUser_first_connection [of two_tabs "''u9''" "''mention''" "ErrorP []"]
  by (simp add: sample_data socket_ops)

subsection \<open>getRoomStats and getAllActiveRooms\<close>

text \<open>
  C9 (as stated). \<open>getRoomStats(room)\<close> lists exactly the users whose subscription set in
  the membership index contains the room, as \<open>getAllActiveRooms\<close> does. Alice joined
  general and then lobby on one connection: the index holds both rooms for her and
  \<open>getAllActiveRooms\<close> counts her in both, but her session's current room is lobby and
  \<open>getRoomStats\<close> of general is empty.
\<close>

theorem getRoomStats_not_from_index_counterexample:
  "alice_rooms = [(''u1'', [''general'', ''lobby''])] \<and>
   subscribers alice_rooms ''general'' = {''u1''} \<and>
   getRoomStats one_tab ''general'' = \<lparr> userCount = 0, users = [] \<rparr> \<and>
   getAllActiveRooms one_tab alice_rooms
     = [\<lparr> a_room = ''general'', a_userCount = 1, a_users = [''alice''] \<rparr>,
        \<lparr> a_room = ''lobby'', a_userCount = 1, a_users = [''alice''] \<rparr>]"
  by (simp add: sample_data socket_ops)

text \<open>
  C9 (amended). \<open>getRoomStats(room)\<close> is computed from the session registry: its users are
  the sessions whose current room is the room, one entry per connection, and
  \<open>userCount\<close> is their number. \<open>getAllActiveRooms\<close> is computed by inverting the
  membership index: it lists each room that some subscription set contains, once, with
  the users whose subscription set contains it and their number.
\<close>

theorem presence_views:
  "users (getRoomStats cu room)
     = map (\<lambda>(c, u). (s_id u, s_username u)) (filter (\<lambda>(c, u). s_room u = Some room) cu) \<and>
   userCount (getRoomStats cu room) = length (filter (\<lambda>(c, u). s_room u = Some room) cu) \<and>
   distinct (map a_room (getAllActiveRooms cu ms)) \<and>
   set (map a_room (getAllActiveRooms cu ms)) = {r. subscribers ms r \<noteq> {}} \<and>
   (\<forall>e \<in> set (getAllActiveRooms cu ms).
      a_userCount e = card (subscribers ms (a_room e)) \<and>
      (\<exists>ids. distinct ids \<and> set ids = subscribers ms (a_room e) \<and>
             a_users e = map (usernameOf cu) ids))"
proof -
  let ?st = "roomStats_of ms"
  have ok: "stats_ok ?st" by (rule roomStats_of_ok)
  have entry: "distinct ids \<and> ids \<noteq> [] \<and> set ids = subscribers ms r"
    if "(r, ids) \<in> set ?st" for r ids
    using stats_entry [OF ok that] by (simp add: roomStats_of_pairs subscribers_pairs)
  have names: "map a_room (getAllActiveRooms cu ms) = map fst ?st"
    by (simp add: getAllActiveRooms_def split_def comp_def)
  have a: "users (getRoomStats cu room)
     = map (\<lambda>(c, u). (s_id u, s_username u)) (filter (\<lambda>(c, u). s_room u = Some room) cu)"
    by (simp add: getRoomStats_def getUsersInRoom_def Let_def filter_map comp_def split_def)
  have b: "userCount (getRoomStats cu room) = length (filter (\<lambda>(c, u). s_room u = Some room) cu)"
    by (simp add: getRoomStats_def getUsersInRoom_def Let_def filter_map comp_def split_def)
  have c: "distinct (map a_room (getAllActiveRooms cu ms))"
    using ok by (simp add: names stats_ok_def)
  have d: "set (map a_room (getAllActiveRooms cu ms)) = {r. subscribers ms r \<noteq> {}}"
  proof (rule set_eqI)
    fix r
    have "r \<in> set (map fst ?st) \<longleftrightarrow> (\<exists>ids. (r, ids) \<in> set ?st)" by force
    also have "\<dots> \<longleftrightarrow> (\<exists>u. (r, u) \<in> stats_pairs ?st)"
    proof
      assume "\<exists>ids. (r, ids) \<in> set ?st"
      then obtain ids where m: "(r, ids) \<in> set ?st" by blast
      from entry [OF m] obtain u where "u \<in> set ids" by (cases ids) auto
      with m show "\<exists>u. (r, u) \<in> stats_pairs ?st" by (auto simp: stats_pairs_def)
    next
      assume "\<exists>u. (r, u) \<in> stats_pairs ?st"
      then show "\<exists>ids. (r, ids) \<in> set ?st" by (auto simp: stats_pairs_def)
    qed
    also have "\<dots> \<longleftrightarrow> subscribers ms r \<noteq> {}"
      by (simp add: roomStats_of_pairs subscribers_pairs)
    finally show "r \<in> set (map a_room (getAllActiveRooms cu ms)) \<longleftrightarrow> r \<in> {r. subscribers ms r \<noteq> {}}"
      by (simp add: names)
  qed
  have e: "\<forall>e \<in> set (getAllActiveRooms cu ms).
      a_userCount e = card (subscribers ms (a_room e)) \<and>
      (\<exists>ids. distinct ids \<and> set ids = subscribers ms (a_room e) \<and>
             a_users e = map (usernameOf cu) ids)"
  proof
    fix e assume "e \<in> set (getAllActiveRooms cu ms)"
    then obtain r ids where m: "(r, ids) \<in> set ?st"
      and e: "e = \<lparr> a_room = r, a_userCount = length ids, a_users = map (usernameOf cu) ids \<rparr>"
      by (auto simp: getAllActiveRooms_def)
    from entry [OF m] have "distinct ids" "set ids = subscribers ms r" by auto
    with e show "a_userCount e = card (subscribers ms (a_room e)) \<and>
      (\<exists>ids. distinct ids \<and> set ids = subscribers ms (a_room e) \<and>
             a_users e = map (usernameOf cu) ids)"
      using distinct_card [of ids] by auto
  qed
  show ?thesis by (intro conjI a b c d e)
qed

theorem presence_views_witness:
  "users (getRoomStats two_tabs ''lobby'') = [(''u1'', ''alice''), (''u1'', ''alice''), (''u2'', ''bob'')] \<and>
   userCount (getRoomStats two_tabs ''lobby'') = 3 \<and>
   set (map a_room (getAllActiveRooms two_tabs alice_rooms)) = {r. subscribers alice_rooms r \<noteq> {}}"
  using presence_views [of two_tabs "''lobby''" alice_rooms]
  by (simp add: sample_data socket_ops)

section \<open>Messages\<close>

lemmas message_ops = createMessage_def on_send_message_def on_delete_message_def
  on_edit_message_def on_add_reaction_def deleteMessage_def editMessage_def addReaction_def
  updateUserLastSeen_def post_message_def extractMentions_def is_word_char_def truthy_def
  rethrow_def Let_def

lemmas message_data = chat_def conn_def in_lobby_def say_def post_def greeted_def events_def
  stored_def lobby_with_bob_def save_fails_def

subsection \<open>send_message\<close>

text \<open>
  C2. When persisting the message fails in the \<open>send_message\<close> handler, an \<open>error\<close>
  event is emitted on the sending connection only and no \<open>receive_message\<close> reaches any
  connection; a \<open>receive_message\<close> fan-out, to the room or to everyone when no room is
  given, happens only after the message has been stored. For a run of the handler that
  returns the store \<open>db'\<close> and the events \<open>es\<close>:
  \<^item> if \<open>message.save()\<close> throws, the store is unchanged and the only event is the
    \<open>error\<close> on the sender's socket;
  \<^item> if any store call of \<open>createMessage\<close> throws, the only event is an \<open>error\<close> on the
    sender's socket: it reaches that connection and no \<open>receive_message\<close> reaches any;
  \<^item> if a \<open>receive_message\<close> was emitted, the store holds the new message, and the event
    is the one fan-out of that message, to its room or to all connections.
\<close>

theorem send_message_persists_before_fanout:
  assumes run: "on_send_message flt now sock data db = (db', es)"
  shows "(\<forall>user e. k_user sock = Some user \<and> flt Message_save = Some e \<longrightarrow>
            db' = db \<and>
            es = [Emit (ToSocket (k_id sock)) ''error'' (ErrorP (''Failed to create message: '' @ e))]) \<and>
         (\<forall>user. k_user sock = Some user \<and>
              (flt Message_save \<noteq> None \<or>
               truthy (sd_room data) \<noteq> None \<and> flt Room_findOneAndUpdate \<noteq> None) \<longrightarrow>
            (\<exists>msg. es = [Emit (ToSocket (k_id sock)) ''error'' (ErrorP msg)]) \<and>
            reached ss ''receive_message'' es = [] \<and>
            reached ss ''error'' es = filter (\<lambda>c. c = k_id sock) (map fst ss)) \<and>
         (filter (\<lambda>e. emit_event e = ''receive_message'') es \<noteq> [] \<longrightarrow>
            (\<exists>m user. k_user sock = Some user \<and>
               d_messages db' = d_messages db @ [m] \<and> m_id m = length (d_messages db) \<and>
               m_content m = sd_message data \<and> m_room m = sd_room data \<and>
               m_sender m = user \<and> \<not> m_isDeleted m \<and>
               filter (\<lambda>e. emit_event e = ''receive_message'') es =
                 [Emit (case truthy (sd_room data) of Some r \<Rightarrow> To r | None \<Rightarrow> ToAll)
                    ''receive_message''
                    (ReceiveMessageP
                       \<lparr> md_id = m_id m, md_username = u_username user,
                         md_message = sd_message data, md_timestamp = m_timestamp m,
                         md_room = sd_room data, md_replyTo = sd_replyTo data,
                         md_mentions = sd_mentions data, md_isEdited = False,
                         md_sender = user \<rparr>)]))"
proof (cases "k_user sock")
  case None
  with run show ?thesis by (simp add: on_send_message_def)
next
  case (Some user)
  show ?thesis
  proof (cases "flt Message_save")
    case (Some e)
    with run \<open>k_user sock = Some user\<close> show ?thesis
      by (auto simp: on_send_message_def createMessage_def reached_def)
  next
    case None
    note saved = None
    show ?thesis
    proof (cases "truthy (sd_room data)")
      case None
      with run saved \<open>k_user sock = Some user\<close> show ?thesis
        by (auto simp: on_send_message_def createMessage_def reached_def Let_def broadcast_def)
    next
      case (Some room)
      show ?thesis
      proof (cases "flt Room_findOneAndUpdate")
        case None
        with run saved Some \<open>k_user sock = Some user\<close> show ?thesis
          by (auto simp: on_send_message_def createMessage_def reached_def Let_def sendToRoom_def)
      next
        case (Some e)
        with run saved \<open>truthy (sd_room data) = Some room\<close> \<open>k_user sock = Some user\<close>
        show ?thesis
          by (auto simp: on_send_message_def createMessage_def reached_def Let_def sendToRoom_def)
      qed
    qed
  qed
qed

theorem send_message_persists_before_fanout_witness:
  "on_send_message save_fails 6 (conn ''s1'' alice) (say ''hello'') chat
     = (chat, [Emit (ToSocket ''s1'') ''error'' (ErrorP ''Failed to create message: disk full'')]) \<and>
   reached in_lobby ''receive_message''
     [Emit (ToSocket ''s1'') ''error'' (ErrorP ''Failed to create message: disk full'')] = [] \<and>
   reached in_lobby ''error''
     [Emit (ToSocket ''s1'') ''error'' (ErrorP ''Failed to create message: disk full'')] = [''s1'']"
proof -
  have run: "on_send_message save_fails 6 (conn ''s1'' alice) (say ''hello'') chat
     = (chat, [Emit (ToSocket ''s1'') ''error'' (ErrorP ''Failed to create message: disk full'')])"
    by (simp add: sample_data message_ops message_data)
  from send_message_persists_before_fanout [OF run, of in_lobby] run show ?thesis
    by (simp add: message_data)
qed

text \<open>
  C4. A \<open>send_message\<close> without a mentions list stores the users named by the \<open>@word\<close>
  tokens of its content as the message's mentions, and each of them receives a
  notification. In the socket handler nothing reads the content: Alice's "hello @u2" is
  stored with no mentions, and the only events are \<open>newMessage\<close> and \<open>receive_message\<close>
  to the room. The HTTP route for the same message extracts \<open>u2\<close>, stores it and sends
  Bob a \<open>mention\<close>.
\<close>

theorem send_message_no_mentions:
  "extractMentions ''hello @u2'' = [''u2''] \<and>
   stored (fst (on_send_message no_faults 6 (conn ''s1'' alice) (say ''hello @u2'') chat))
     = [(''hello @u2'', False, [])] \<and>
   events (on_send_message no_faults 6 (conn ''s1'' alice) (say ''hello @u2'') chat)
     = [(To ''lobby'', ''newMessage''), (To ''lobby'', ''receive_message'')] \<and>
   stored (fst (snd (post_message no_faults 6 two_tabs (Some alice) (post ''hello @u2'') chat)))
     = [(''hello @u2'', False, [''u2''])] \<and>
   map (\<lambda>e. (emit_target e, emit_event e))
     (snd (snd (post_message no_faults 6 two_tabs (Some alice) (post ''hello @u2'') chat)))
     = [(To ''lobby'', ''newMessage''), (To ''s3'', ''mention'')]"
  by (simp add: sample_data socket_ops message_ops message_data)

subsection \<open>delete_message\<close>

lemma deleteMessage_sender_only:
  assumes "deleteMessage flt now messageId userId db = Inr (True, db')"
  shows "\<exists>m\<in>set (d_messages db).
           m_id m = messageId \<and> u_id (m_sender m) = userId \<and> \<not> m_isDeleted m"
proof -
  from assms have
    "find (\<lambda>m. m_id m = messageId \<and> u_id (m_sender m) = userId \<and> \<not> m_isDeleted m)
       (d_messages db) \<noteq> None"
    by (auto simp: deleteMessage_def rethrow_def Let_def split: option.splits)
  then show ?thesis by (auto simp: find_None_iff)
qed

text \<open>
  C7. A successful \<open>delete_message\<close> soft-deletes the message and re-emits
  \<open>message_deleted\<close> to the message's room, or to all connections when the message has
  no room. Alice deletes her message in the lobby: it is stored deleted, with the
  placeholder as content, but \<open>message_deleted\<close> is sent with \<open>socket.emit\<close> and reaches
  her connection \<open>s1\<close> only, of the three connections in the lobby. The handler of
  \<open>edit_message\<close> sends its event to the lobby.
\<close>

theorem delete_message_only_to_caller:
  "stored greeted = [(''hello'', False, [])] \<and>
   map m_room (d_messages greeted) = [Some ''lobby''] \<and>
   stored (fst (on_delete_message no_faults 9 (conn ''s1'' alice) 0 greeted))
     = [(''[Message deleted]'', True, [])] \<and>
   events (on_delete_message no_faults 9 (conn ''s1'' alice) 0 greeted)
     = [(ToSocket ''s1'', ''message_deleted'')] \<and>
   reached in_lobby ''message_deleted''
     (snd (on_delete_message no_faults 9 (conn ''s1'' alice) 0 greeted)) = [''s1''] \<and>
   recipients in_lobby (To ''lobby'') = [''s1'', ''s2'', ''s3''] \<and>
   events (on_edit_message no_faults 9 (conn ''s1'' alice) 0 ''hi'' greeted)
     = [(To ''lobby'', ''message_edited'')]"
  by (simp add: sample_data socket_ops message_ops message_data)

subsection \<open>Reactions\<close>

lemma update_first_findIndex:
  "update_first P f xs = (case findIndex P xs of None \<Rightarrow> xs | Some i \<Rightarrow> xs[i := f (xs ! i)])"
  by (induction xs) (auto split: option.splits)

lemma length_update_first [simp]: "length (update_first P f xs) = length xs"
  by (induction xs) auto





lemma run_steps_Nil [simp]: "run_steps mid [] db = db"
  by (simp add: run_steps_def)

lemma run_steps_Cons [simp]: "run_steps mid (s # steps) db = run_steps mid steps (store_step mid s db)"
  by (simp add: run_steps_def)

lemma run_steps_append: "run_steps mid (xs @ ys) db = run_steps mid ys (run_steps mid xs db)"
  by (simp add: run_steps_def)



lemma addReaction_steps:
  "snd (addReaction flt now mid u n e db) = run_steps mid (call_steps flt now u n e) db"
  by (cases "flt Message_pull"; cases "flt Message_push")
     (simp_all add: addReaction_def call_steps_def store_step_def Let_def)

lemma serial_calls_steps:
  "foldl (\<lambda>d (flt, now, u, n, e). snd (addReaction flt now mid u n e d)) db calls
     = run_steps mid (concat (map (\<lambda>(flt, now, u, n, e). call_steps flt now u n e) calls)) db"
proof (induction calls arbitrary: db)
  case Nil
  show ?case by simp
next
  case (Cons c calls)
  obtain flt now u n e where c: "c = (flt, now, u, n, e)" by (cases c)
  from Cons.IH [of "snd (addReaction flt now mid u n e db)"] show ?case
    by (simp add: c run_steps_append addReaction_steps)
qed

lemma serial_calls_paired:
  "paired pulled (concat (map (\<lambda>(flt, now, u, n, e). call_steps flt now u n e) calls))"
proof (induction calls arbitrary: pulled)
  case Nil
  show ?case by simp
next
  case (Cons c calls)
  obtain flt now u n e where c: "c = (flt, now, u, n, e)" by (cases c)
  have "call_steps flt now u n e = [] \<or> call_steps flt now u n e = [Pull u]
        \<or> call_steps flt now u n e = [Pull u, Push u n e now]"
    by (simp add: call_steps_def split: option.splits)
  then show ?case
    by (elim disjE) (simp_all add: c Cons.IH)
qed







subsection \<open>Message history\<close>

lemma getMessages_page:
  assumes "getMessages flt f db = Inr page"
  shows "g_messages page =
     rev (take (case f_limit f of None \<Rightarrow> 50 | Some n \<Rightarrow> if n = 0 then 50 else n)
            (drop (case f_skip f of None \<Rightarrow> 0 | Some n \<Rightarrow> n)
               (sort_key (\<lambda>m. - int (m_timestamp m)) (filter (matches f) (d_messages db)))))"
proof (cases "flt Message_find")
  case (Some e)
  with assms show ?thesis by (simp add: getMessages_def rethrow_def)
next
  case None
  note find = None
  show ?thesis
  proof (cases "flt Message_countDocuments")
    case (Some e)
    with assms find show ?thesis by (simp add: getMessages_def rethrow_def)
  next
    case None
    with assms find have "page =
      \<lparr> g_messages = rev (take (case f_limit f of None \<Rightarrow> 50 | Some n \<Rightarrow> if n = 0 then 50 else n)
            (drop (case f_skip f of None \<Rightarrow> 0 | Some n \<Rightarrow> n)
               (sort_key (\<lambda>m. - int (m_timestamp m)) (filter (matches f) (d_messages db))))),
        g_total = length (filter (matches f) (d_messages db)),
        g_hasMore = ((case f_skip f of None \<Rightarrow> 0 | Some n \<Rightarrow> n)
                     + (case f_limit f of None \<Rightarrow> 50 | Some n \<Rightarrow> if n = 0 then 50 else n)
                     < length (filter (matches f) (d_messages db))) \<rparr>"
      by (simp add: getMessages_def rethrow_def Let_def)
    then show ?thesis by simp
  qed
qed

lemma getMessages_subset:
  assumes "getMessages flt f db = Inr page"
  shows "set (g_messages page) \<subseteq> {m \<in> set (d_messages db). matches f m}"
proof -
  have sub: "set (take l (drop s xs)) \<subseteq> set xs" for l s and xs :: "message list"
    by (meson set_take_subset set_drop_subset subset_trans)
  from sub [of _ _ "sort_key (\<lambda>m. - int (m_timestamp m)) (filter (matches f) (d_messages db))"]
  show ?thesis unfolding getMessages_page [OF assms] by auto
qed

lemma getMessages_length:
  assumes "getMessages flt f db = Inr page"
  shows "length (g_messages page) \<le> (case f_limit f of None \<Rightarrow> 50 | Some n \<Rightarrow> if n = 0 then 50 else n)"
  unfolding getMessages_page [OF assms] by simp

lemma ids_ok_nth: "ids_ok db \<Longrightarrow> i < length (d_messages db) \<Longrightarrow> m_id (d_messages db ! i) = i"
proof -
  assume ok: "ids_ok db" and i: "i < length (d_messages db)"
  from i have "m_id (d_messages db ! i) = map m_id (d_messages db) ! i" by simp
  also from ok i have "\<dots> = i" by (simp add: ids_ok_def)
  finally show ?thesis .
qed

lemma tombstone_update:
  assumes t: "tombstone mid db"
      and id: "\<And>m. m_id (f m) = m_id m"
      and keep: "\<And>m. P m \<Longrightarrow> m_isDeleted m \<Longrightarrow> m_isDeleted (f m) \<and> m_content (f m) = m_content m"
  shows "tombstone mid (db \<lparr> d_messages := update_first P f (d_messages db) \<rparr>)"
proof -
  let ?ms = "d_messages db"
  from t have ok: "map m_id ?ms = [0..<length ?ms]" and mid: "mid < length ?ms"
    and del: "m_isDeleted (?ms ! mid)" "m_content (?ms ! mid) = ''[Message deleted]''"
    by (auto simp: tombstone_def ids_ok_def)
  show ?thesis
  proof (cases "findIndex P ?ms")
    case None
    with t show ?thesis by (simp add: update_first_findIndex tombstone_def ids_ok_def)
  next
    case (Some i)
    from findIndex_Some [OF Some] have i: "i < length ?ms" "P (?ms ! i)" by auto
    have upd: "update_first P f ?ms = ?ms[i := f (?ms ! i)]"
      using Some by (simp add: update_first_findIndex)
    have "map m_id (?ms[i := f (?ms ! i)]) = (map m_id ?ms)[i := m_id (?ms ! i)]"
      by (simp add: map_update id)
    also have "\<dots> = map m_id ?ms" using i(1) by (simp add: list_update_same_conv)
    finally have ids: "map m_id (?ms[i := f (?ms ! i)]) = [0..<length ?ms]" using ok by simp
    have "m_isDeleted (?ms[i := f (?ms ! i)] ! mid) \<and>
          m_content (?ms[i := f (?ms ! i)] ! mid) = ''[Message deleted]''"
    proof (cases "i = mid")
      case True
      with keep [OF i(2)] del mid show ?thesis by simp
    next
      case False
      with del show ?thesis by simp
    qed
    with ids mid upd show ?thesis by (simp add: tombstone_def ids_ok_def)
  qed
qed

lemma ids_ok_update:
  assumes "ids_ok db" and id: "\<And>m. m_id (f m) = m_id m"
  shows "ids_ok (db \<lparr> d_messages := update_first P f (d_messages db) \<rparr>)"
proof -
  have "map m_id (update_first P f xs) = map m_id xs" for xs
    by (induction xs) (auto simp: id)
  with assms(1) show ?thesis by (simp add: ids_ok_def)
qed

lemma tombstone_append:
  assumes "tombstone mid db" "m_id m = length (d_messages db)"
  shows "tombstone mid (db \<lparr> d_messages := d_messages db @ [m] \<rparr>)"
  using assms by (auto simp: tombstone_def ids_ok_def nth_append)

lemma tombstone_rooms: "tombstone mid (db \<lparr> d_rooms := rs \<rparr>) = tombstone mid db"
  by (simp add: tombstone_def ids_ok_def)

lemma tombstone_createMessage:
  "tombstone mid db \<Longrightarrow> tombstone mid (fst (snd (createMessage flt now data db)))"
  by (auto simp: createMessage_def Let_def tombstone_rooms intro!: tombstone_append
           split: option.splits)

lemma tombstone_editMessage:
  "tombstone mid db \<Longrightarrow> editMessage flt now i c u db = Inr (r, db') \<Longrightarrow> tombstone mid db'"
  by (auto simp: editMessage_def rethrow_def Let_def intro!: tombstone_update split: option.splits)

lemma tombstone_deleteMessage:
  "tombstone mid db \<Longrightarrow> deleteMessage flt now i u db = Inr (r, db') \<Longrightarrow> tombstone mid db'"
  by (auto simp: deleteMessage_def rethrow_def Let_def intro!: tombstone_update split: option.splits)

lemma tombstone_addReaction:
  assumes t: "tombstone mid db"
  shows "tombstone mid (snd (addReaction flt now i u n e db))"
proof -
  let ?pull = "\<lambda>m. m \<lparr> m_reactions := filter (\<lambda>x. x_userId x \<noteq> u) (m_reactions m) \<rparr>"
  let ?push = "\<lambda>m. m \<lparr> m_reactions := m_reactions m @
      [\<lparr> x_userId = u, x_username = n, x_emoji = e, x_timestamp = now \<rparr>] \<rparr>"
  let ?db1 = "db \<lparr> d_messages := update_first (\<lambda>m. m_id m = i) ?pull (d_messages db) \<rparr>"
  let ?db2 = "?db1 \<lparr> d_messages := update_first (\<lambda>m. m_id m = i) ?push (d_messages ?db1) \<rparr>"
  have t1: "tombstone mid ?db1" by (rule tombstone_update [OF t]) simp_all
  have t2: "tombstone mid ?db2" by (rule tombstone_update [OF t1]) simp_all
  show ?thesis
  proof (cases "flt Message_pull")
    case (Some err)
    with t show ?thesis by (simp add: addReaction_def)
  next
    case None
    note pull = None
    show ?thesis
    proof (cases "flt Message_push")
      case (Some err)
      with pull have "snd (addReaction flt now i u n e db) = ?db1"
        by (simp add: addReaction_def Let_def)
      with t1 show ?thesis by simp
    next
      case None
      with pull have "snd (addReaction flt now i u n e db) = ?db2"
        by (simp add: addReaction_def Let_def)
      with t2 show ?thesis by simp
    qed
  qed
qed

lemma tombstone_apply_op: "tombstone mid db \<Longrightarrow> tombstone mid (apply_op op db)"
proof (cases op)
  case (Create flt now data)
  assume "tombstone mid db"
  with Create show ?thesis by (simp add: tombstone_createMessage)
next
  case (Edit flt now i c u)
  assume "tombstone mid db"
  with Edit show ?thesis
    by (auto split: sum.splits dest: tombstone_editMessage)
next
  case (Delete flt now i u)
  assume "tombstone mid db"
  with Delete show ?thesis
    by (auto split: sum.splits dest: tombstone_deleteMessage)
next
  case (React flt now i u n e)
  assume "tombstone mid db"
  with React show ?thesis by (simp add: tombstone_addReaction)
qed

lemma tombstone_apply_ops: "tombstone mid db \<Longrightarrow> tombstone mid (apply_ops ops db)"
  unfolding apply_ops_def
  by (induction ops arbitrary: db) (simp_all add: tombstone_apply_op)

lemma deleteMessage_tombstone:
  assumes ok: "ids_ok db" and del: "deleteMessage flt now mid uid db = Inr (True, db1)"
  shows "tombstone mid db1"
proof -
  let ?ms = "d_messages db"
  let ?q = "\<lambda>m. m_id m = mid \<and> u_id (m_sender m) = uid \<and> \<not> m_isDeleted m"
  let ?u = "\<lambda>m. m \<lparr> m_isDeleted := True, m_deletedAt := Some now, m_content := ''[Message deleted]'' \<rparr>"
  from del have found: "find ?q ?ms \<noteq> None" and db1: "db1 = db \<lparr> d_messages := update_first ?q ?u ?ms \<rparr>"
    by (auto simp: deleteMessage_def rethrow_def Let_def split: option.splits)
  from found have "findIndex ?q ?ms \<noteq> None"
    by (auto simp: findIndex_None_iff find_None_iff)
  then obtain i where i: "findIndex ?q ?ms = Some i" by auto
  from findIndex_Some [OF i] have il: "i < length ?ms" and q: "?q (?ms ! i)" by auto
  from ids_ok_nth [OF ok il] q have "i = mid" by simp
  with i have upd: "update_first ?q ?u ?ms = ?ms[mid := ?u (?ms ! mid)]"
    by (simp add: update_first_findIndex)
  from ok have "ids_ok db1" unfolding db1 by (rule ids_ok_update) simp
  with il \<open>i = mid\<close> upd db1 show ?thesis by (simp add: tombstone_def)
qed

text \<open>
  Message ids stay the positions in the collection under every write of
  \<open>MessageService\<close>, from the empty collection on.
\<close>

lemma ids_ok_append:
  "ids_ok db \<Longrightarrow> m_id m = length (d_messages db) \<Longrightarrow>
   ids_ok (db \<lparr> d_messages := d_messages db @ [m] \<rparr>)"
  by (simp add: ids_ok_def)

lemma ids_ok_rooms: "ids_ok (db \<lparr> d_rooms := rs \<rparr>) = ids_ok db"
  by (simp add: ids_ok_def)

lemma ids_ok_apply_op: "ids_ok db \<Longrightarrow> ids_ok (apply_op op db)"
proof (cases op)
  case (Create flt now data)
  assume "ids_ok db"
  with Create show ?thesis
    by (auto simp: createMessage_def Let_def ids_ok_rooms intro!: ids_ok_append
             split: option.splits)
next
  case (Edit flt now i c u)
  assume "ids_ok db"
  with Edit show ?thesis
    by (auto simp: editMessage_def rethrow_def Let_def intro!: ids_ok_update
             split: option.splits)
next
  case (Delete flt now i u)
  assume "ids_ok db"
  with Delete show ?thesis
    by (auto simp: deleteMessage_def rethrow_def Let_def intro!: ids_ok_update
             split: option.splits)
next
  case (React flt now i u n e)
  assume ok: "ids_ok db"
  let ?pull = "\<lambda>m. m \<lparr> m_reactions := filter (\<lambda>x. x_userId x \<noteq> u) (m_reactions m) \<rparr>"
  let ?db1 = "db \<lparr> d_messages := update_first (\<lambda>m. m_id m = i) ?pull (d_messages db) \<rparr>"
  have ok1: "ids_ok ?db1" by (rule ids_ok_update [OF ok]) simp
  have ok2: "ids_ok (?db1 \<lparr> d_messages := update_first (\<lambda>m. m_id m = i) f (d_messages ?db1) \<rparr>)"
    if "\<And>m. m_id (f m) = m_id m" for f
    using ok1 that by (rule ids_ok_update)
  from ok ok1 ok2 [of "\<lambda>m. m \<lparr> m_reactions := m_reactions m @
      [\<lparr> x_userId = u, x_username = n, x_emoji = e, x_timestamp = now \<rparr>] \<rparr>"] React
  show ?thesis
    by (cases "flt Message_pull"; cases "flt Message_push") (simp_all add: addReaction_def Let_def)
qed

lemma ids_ok_reachable: "ids_ok (apply_ops ops \<lparr> d_rooms = rs, d_messages = [] \<rparr>)"
proof -
  have "ids_ok db \<Longrightarrow> ids_ok (apply_ops ops db)" for db
    unfolding apply_ops_def by (induction ops arbitrary: db) (simp_all add: ids_ok_apply_op)
  then show ?thesis by (simp add: ids_ok_def)
qed

text \<open>
  C10. Every message returned by \<open>getMessages\<close>, and so every message of the room history
  of 20 delivered on a join, has \<open>isDeleted = false\<close>. Once \<open>deleteMessage\<close> has
  succeeded on a message, whatever \<open>createMessage\<close>, \<open>editMessage\<close>, \<open>deleteMessage\<close>
  and \<open>addReaction\<close> calls follow, no later \<open>getMessages\<close> result contains that message,
  while the store still holds it, deleted, with the placeholder as content.
\<close>

theorem deleted_never_in_history:
  "(getMessages flt f db = Inr page \<longrightarrow> (\<forall>m\<in>set (g_messages page). \<not> m_isDeleted m)) \<and>
   (getRoomMessages flt room 20 0 db = Inr (info, page) \<longrightarrow>
      length (g_messages page) \<le> 20 \<and> (\<forall>m\<in>set (g_messages page). \<not> m_isDeleted m)) \<and>
   (ids_ok db0 \<and> deleteMessage flt0 now mid uid db0 = Inr (True, db1) \<and>
    getMessages flt f (apply_ops ops db1) = Inr page \<longrightarrow>
      (\<forall>m\<in>set (g_messages page). m_id m \<noteq> mid) \<and>
      (\<exists>m. find (\<lambda>m. m_id m = mid) (d_messages (apply_ops ops db1)) = Some m \<and>
           m_isDeleted m \<and> m_content m = ''[Message deleted]''))"
proof -
  have A: "\<forall>m\<in>set (g_messages page). \<not> m_isDeleted m"
    if "getMessages flt f db = Inr page" for flt f db page
    using getMessages_subset [OF that] by (auto simp: matches_def)
  have B: "getRoomMessages flt room 20 0 db = Inr (info, page) \<longrightarrow>
      length (g_messages page) \<le> 20 \<and> (\<forall>m\<in>set (g_messages page). \<not> m_isDeleted m)"
  proof
    assume "getRoomMessages flt room 20 0 db = Inr (info, page)"
    then have g: "getMessages flt
        \<lparr> f_room = Some room, f_senderId = None, f_messageType = None, f_startDate = None,
          f_endDate = None, f_limit = Some 20, f_skip = Some 0 \<rparr> db = Inr page"
      by (auto simp: getRoomMessages_def rethrow_def split: option.splits sum.splits)
    from A [OF g] getMessages_length [OF g]
    show "length (g_messages page) \<le> 20 \<and> (\<forall>m\<in>set (g_messages page). \<not> m_isDeleted m)"
      by simp
  qed
  have C: "ids_ok db0 \<and> deleteMessage flt0 now mid uid db0 = Inr (True, db1) \<and>
      getMessages flt f (apply_ops ops db1) = Inr page \<longrightarrow>
        (\<forall>m\<in>set (g_messages page). m_id m \<noteq> mid) \<and>
        (\<exists>m. find (\<lambda>m. m_id m = mid) (d_messages (apply_ops ops db1)) = Some m \<and>
             m_isDeleted m \<and> m_content m = ''[Message deleted]'')"
  proof
    assume a: "ids_ok db0 \<and> deleteMessage flt0 now mid uid db0 = Inr (True, db1) \<and>
      getMessages flt f (apply_ops ops db1) = Inr page"
    let ?db = "apply_ops ops db1"
    from a have "tombstone mid db1" by (auto intro: deleteMessage_tombstone)
    then have t: "tombstone mid ?db" by (rule tombstone_apply_ops)
    then have ok: "ids_ok ?db" and mid: "mid < length (d_messages ?db)"
      and gone: "m_isDeleted (d_messages ?db ! mid)"
        "m_content (d_messages ?db ! mid) = ''[Message deleted]''"
      by (auto simp: tombstone_def)
    from a have get: "getMessages flt f ?db = Inr page" by simp
    have no: "m_id m \<noteq> mid" if "m \<in> set (g_messages page)" for m
    proof
      assume "m_id m = mid"
      from that getMessages_subset [OF get] A [OF get]
      have m: "m \<in> set (d_messages ?db)" "\<not> m_isDeleted m" by auto
      then obtain i where i: "i < length (d_messages ?db)" "d_messages ?db ! i = m"
        by (auto simp: in_set_conv_nth)
      with ids_ok_nth [OF ok i(1)] \<open>m_id m = mid\<close> have "i = mid" by simp
      with i gone m show False by simp
    qed
    have "find (\<lambda>m. m_id m = mid) (d_messages ?db) = Some (d_messages ?db ! mid)"
    proof -
      have "\<exists>i<length (d_messages ?db). m_id (d_messages ?db ! i) = mid \<and>
              d_messages ?db ! mid = d_messages ?db ! i \<and>
              (\<forall>j<i. \<not> m_id (d_messages ?db ! j) = mid)"
        using mid ids_ok_nth [OF ok] by (intro exI [of _ mid]) auto
      then show ?thesis by (simp add: find_Some_iff)
    qed
    with gone no show "(\<forall>m\<in>set (g_messages page). m_id m \<noteq> mid) \<and>
        (\<exists>m. find (\<lambda>m. m_id m = mid) (d_messages (apply_ops ops db1)) = Some m \<and>
             m_isDeleted m \<and> m_content m = ''[Message deleted]'')" by simp
  qed
  from A have A': "getMessages flt f db = Inr page \<longrightarrow>
      (\<forall>m\<in>set (g_messages page). \<not> m_isDeleted m)" by blast
  show ?thesis by (intro conjI A' B C)
qed

theorem deleted_never_in_history_witness:
  "ids_ok greeted \<and> deleteMessage no_faults 9 0 ''u1'' greeted = Inr (True, buried) \<and>
   (\<exists>page. getMessages no_faults everything (apply_ops later buried) = Inr page \<and>
      map m_content (g_messages page) = [''bye''] \<and>
      (\<forall>m\<in>set (g_messages page). m_id m \<noteq> 0)) \<and>
   map m_content (d_messages (apply_ops later buried)) = [''[Message deleted]'', ''bye'']"
proof -
  have ok: "ids_ok greeted"
    by (simp add: sample_data message_ops message_data ids_ok_def sendToRoom_def)
  have del: "deleteMessage no_faults 9 0 ''u1'' greeted = Inr (True, buried)"
    by (simp add: sample_data message_ops message_data buried_def sendToRoom_def)
  obtain page where get: "getMessages no_faults everything (apply_ops later buried) = Inr page"
    and content: "map m_content (g_messages page) = [''bye'']"
    by (simp add: sample_data message_ops message_data buried_def later_def everything_def
          apply_ops_def getMessages_def matches_def sendToRoom_def)
  have all: "map m_content (d_messages (apply_ops later buried)) = [''[Message deleted]'', ''bye'']"
    by (simp add: sample_data message_ops message_data buried_def later_def apply_ops_def
          sendToRoom_def)
  from deleted_never_in_history
    [of no_faults everything "apply_ops later buried" page "''lobby''" None greeted no_faults 9 0
        "''u1''" buried later]
    ok del get
  have "\<forall>m\<in>set (g_messages page). m_id m \<noteq> 0" by simp
  with get content have
    "\<exists>page. getMessages no_faults everything (apply_ops later buried) = Inr page \<and>
       map m_content (g_messages page) = [''bye''] \<and>
       (\<forall>m\<in>set (g_messages page). m_id m \<noteq> 0)"
    by (intro exI [of _ page]) simp
  with ok del all show ?thesis by (intro conjI)
qed

end

